theory Spec2Isabelle
  imports Main "HOL-Library.Word" "HOL-Library.Multiset"
begin

section \<open>The runtime the two scripts stand on\<close>

text \<open>
  The repository holds two Python scripts, \<^verbatim>\<open>pdf_to_md.py\<close> (the Batch Document
  Converter) and \<^verbatim>\<open>create-test-image.py\<close> (the Image Generator). Both are sequences of
  calls into the Python runtime and two libraries. This section models the runtime
  operations the scripts call. Paths are joined and split as \<^verbatim>\<open>posixpath\<close> does (\<^verbatim>\<open>os.sep\<close>
  is \<^verbatim>\<open>/\<close>). What else depends on the host is a parameter: the line separator
  \<^verbatim>\<open>os.linesep\<close>, which paths are links to the same file, and what the operating system
  refuses to open. File names and paths are byte strings (\<^typ>\<open>string\<close>); the text that
  the PDF library returns is a Python \<^verbatim>\<open>str\<close>, a list of code points.
\<close>

subsection \<open>Strings\<close>

text \<open>\<^verbatim>\<open>s.endswith(suffix)\<close> and \<^verbatim>\<open>s.startswith(prefix)\<close>.\<close>

definition endswith :: "'a list \<Rightarrow> 'a list \<Rightarrow> bool" where
  "endswith s suffix =
     (length suffix \<le> length s \<and> drop (length s - length suffix) s = suffix)"

definition startswith :: "'a list \<Rightarrow> 'a list \<Rightarrow> bool" where
  "startswith s pre = (take (length pre) s = pre)"

text \<open>\<^verbatim>\<open>s.rfind(c)\<close> for a one-character \<^verbatim>\<open>c\<close>: the highest index of \<^verbatim>\<open>c\<close>, or -1.\<close>

fun rfind :: "string \<Rightarrow> char \<Rightarrow> int" where
  "rfind [] c = - 1"
| "rfind (x # xs) c =
     (let r = rfind xs c in if 0 \<le> r then r + 1 else if x = c then 0 else - 1)"

subsection \<open>Paths: \<^verbatim>\<open>posixpath.join\<close> and \<^verbatim>\<open>posixpath.splitext\<close>\<close>

text \<open>
  \<^verbatim>\<open>os.path.join(a, b)\<close>: an absolute \<^verbatim>\<open>b\<close> replaces \<^verbatim>\<open>a\<close>; otherwise the two are joined
  with one separator, which is left out when \<^verbatim>\<open>a\<close> is empty or already ends in one.
\<close>

definition os_path_join :: "string \<Rightarrow> string \<Rightarrow> string" where
  "os_path_join a b =
     (if startswith b ''/'' then b
      else if a = [] \<or> endswith a ''/'' then a @ b
      else a @ ''/'' @ b)"

text \<open>
  \<^verbatim>\<open>os.path.splitext(p)\<close> is \<^verbatim>\<open>genericpath._splitext(p, '/', None, '.')\<close>:
  \<^verbatim>\<open>
    sepIndex = p.rfind(sep)
    dotIndex = p.rfind(extsep)
    if dotIndex > sepIndex:
        filenameIndex = sepIndex + 1
        while filenameIndex < dotIndex:
            if p[filenameIndex:filenameIndex+1] != extsep:
                return p[:dotIndex], p[dotIndex:]
            filenameIndex += 1
    return p, p[:0]
  \<close>
  The loop skips the leading dots of the last component. \<open>splitext_scan p i d\<close> is the
  loop from \<open>filenameIndex = i\<close> with \<open>dotIndex = d\<close>: it is true when the loop returns
  the split from inside, false when it falls through.
\<close>

function splitext_scan :: "string \<Rightarrow> nat \<Rightarrow> nat \<Rightarrow> bool" where
  "splitext_scan p i d =
     (if i < d then (if take 1 (drop i p) \<noteq> ''.'' then True else splitext_scan p (Suc i) d)
      else False)"
  by pat_completeness auto
termination
  by (relation "measure (\<lambda>(p, i, d). d - i)") auto

declare splitext_scan.simps [simp del]

definition os_path_splitext :: "string \<Rightarrow> string \<times> string" where
  "os_path_splitext p =
     (let sepIndex = rfind p CHR ''/'';
          dotIndex = rfind p CHR ''.''
      in if dotIndex > sepIndex \<and> splitext_scan p (nat (sepIndex + 1)) (nat dotIndex)
         then (take (nat dotIndex) p, drop (nat dotIndex) p)
         else (p, []))"

subsection \<open>Text and its UTF-8 encoding\<close>

type_synonym byte = "8 word"

text \<open>A Python \<^verbatim>\<open>str\<close>: its code points, each below \<^verbatim>\<open>0x110000\<close>.\<close>

type_synonym pystr = "nat list"

datatype error =
    FileNotFoundError
  | NotADirectoryError
  | IsADirectoryError
  | PermissionError
  | UnicodeEncodeError
  | PDFSyntaxError
  | KeyError
  | OSError

text \<open>
  The strict UTF-8 codec: one to four bytes per code point; a surrogate
  (\<^verbatim>\<open>0xD800\<close> to \<^verbatim>\<open>0xDFFF\<close>) cannot be encoded and raises \<^verbatim>\<open>UnicodeEncodeError\<close>.
\<close>

definition byte_of :: "nat \<Rightarrow> byte" where
  "byte_of n = of_nat n"

definition utf8_char :: "nat \<Rightarrow> byte list option" where
  "utf8_char c =
     (if c < 0x80 then Some [byte_of c]
      else if c < 0x800 then Some [byte_of (0xC0 + c div 64), byte_of (0x80 + c mod 64)]
      else if 0xD800 \<le> c \<and> c \<le> 0xDFFF then None
      else if c < 0x10000 then
        Some [byte_of (0xE0 + c div 4096), byte_of (0x80 + c div 64 mod 64),
              byte_of (0x80 + c mod 64)]
      else if c < 0x110000 then
        Some [byte_of (0xF0 + c div 262144), byte_of (0x80 + c div 4096 mod 64),
              byte_of (0x80 + c div 64 mod 64), byte_of (0x80 + c mod 64)]
      else None)"

fun utf8_encode :: "pystr \<Rightarrow> error + byte list" where
  "utf8_encode [] = Inr []"
| "utf8_encode (c # cs) =
     (case utf8_char c of
        None \<Rightarrow> Inl UnicodeEncodeError
      | Some bs \<Rightarrow> (case utf8_encode cs of Inl e \<Rightarrow> Inl e | Inr rest \<Rightarrow> Inr (bs @ rest)))"

text \<open>
  A text file opened with \<^verbatim>\<open>newline=None\<close> writes each line feed as \<^verbatim>\<open>os.linesep\<close>
  (\<^verbatim>\<open>TextIOWrapper.write\<close>: \<^verbatim>\<open>if "\n" in s and self._writenl != "\n": s = s.replace("\n",
  self._writenl)\<close>). \<open>writenl\<close> is the separator of the host: the line feed on POSIX,
  carriage return and line feed on Windows.
\<close>

definition translate_newlines :: "pystr \<Rightarrow> pystr \<Rightarrow> pystr" where
  "translate_newlines writenl s =
     (if writenl \<noteq> [10] then concat (map (\<lambda>c. if c = 10 then writenl else [c]) s) else s)"

text \<open>
  Reading UTF-8 back into code points, by the length that the first byte of each sequence
  announces. It serves to say that a byte sequence holds a given text and nothing else;
  the program never decodes.
\<close>

fun utf8_decode :: "byte list \<Rightarrow> pystr option" where
  "utf8_decode [] = Some []"
| "utf8_decode (b # bs) =
     (if unat b < 0x80 then map_option ((#) (unat b)) (utf8_decode bs)
      else if unat b < 0xC0 then None
      else if unat b < 0xE0 then
        (case bs of
           b1 # r \<Rightarrow>
             map_option ((#) ((unat b - 0xC0) * 64 + (unat b1 - 0x80))) (utf8_decode r)
         | _ \<Rightarrow> None)
      else if unat b < 0xF0 then
        (case bs of
           b1 # b2 # r \<Rightarrow>
             map_option
               ((#) ((unat b - 0xE0) * 4096 + (unat b1 - 0x80) * 64 + (unat b2 - 0x80)))
               (utf8_decode r)
         | _ \<Rightarrow> None)
      else
        (case bs of
           b1 # b2 # b3 # r \<Rightarrow>
             map_option
               ((#) ((unat b - 0xF0) * 262144 + (unat b1 - 0x80) * 4096 +
                     (unat b2 - 0x80) * 64 + (unat b3 - 0x80)))
               (utf8_decode r)
         | _ \<Rightarrow> None))"

subsection \<open>The file system and the process's output\<close>

datatype node = File "byte list" | Dir

type_synonym fs = "string \<rightharpoonup> node"

record world =
  files :: fs
  stdout :: string

text \<open>\<^verbatim>\<open>print(s)\<close>: the string and a line feed go to standard output.\<close>

definition py_print :: "string \<Rightarrow> world \<Rightarrow> world" where
  "py_print s w = w\<lparr>stdout := stdout w @ s @ [CHR 0x0A]\<rparr>"

text \<open>
  A file system \<open>fs\<close> gives for each path what the path resolves to: nothing, a
  directory, or a file with its content. Paths are relative to the working directory and
  in normal form, as the scripts form them. What lies outside the repository is a
  parameter:
  \<^item> \<open>pdf_parse\<close>, the parser of the PDF library;
  \<^item> \<open>linesep\<close>, the host's \<^verbatim>\<open>os.linesep\<close>;
  \<^item> \<open>links p\<close>, the other paths that name the same file as \<open>p\<close>: its hard links,
    the symbolic links that resolve to it, what it resolves to when it is a symbolic link
    itself, and the same name in another case on a file system that ignores case (the
    scripts never make or remove a link);
  \<^item> \<open>read_denied p\<close>, the operating system's refusal to open \<open>p\<close> for reading
    (permissions);
  \<^item> \<open>write_denied present p\<close>, its refusal to open \<open>p\<close> for writing (permissions, a
    missing parent directory), which may depend on whether a file is there already: under
    a restrictive \<^verbatim>\<open>umask\<close> a file can be created and then not opened again.
\<close>

record env =
  pdf_parse :: "byte list \<Rightarrow> error + pystr"
  linesep :: pystr
  links :: "string \<Rightarrow> string set"
  read_denied :: "string \<Rightarrow> error option"
  write_denied :: "bool \<Rightarrow> string \<Rightarrow> error option"

text \<open>
  Storing \<open>x\<close> under \<open>path\<close>: every path that names the same file sees it.
\<close>

definition put :: "env \<Rightarrow> string \<Rightarrow> node \<Rightarrow> fs \<Rightarrow> fs" where
  "put E path x fs = (\<lambda>q. if q = path \<or> q \<in> links E path then Some x else fs q)"

text \<open>
  \<^verbatim>\<open>open(path, "rb")\<close> followed by reading the whole file. The operating system's refusal
  comes first; a directory can be opened, and the runtime then raises for it.
\<close>

definition read_file :: "env \<Rightarrow> fs \<Rightarrow> string \<Rightarrow> error + byte list" where
  "read_file E fs path =
     (case read_denied E path of
        Some e \<Rightarrow> Inl e
      | None \<Rightarrow>
          (case fs path of
             None \<Rightarrow> Inl FileNotFoundError
           | Some Dir \<Rightarrow> Inl IsADirectoryError
           | Some (File content) \<Rightarrow> Inr content))"

text \<open>
  \<^verbatim>\<open>open(path, "w")\<close>: the file is created if absent and truncated if present; a
  directory cannot be opened for writing.
\<close>

definition open_w :: "env \<Rightarrow> fs \<Rightarrow> string \<Rightarrow> error + fs" where
  "open_w E fs path =
     (case fs path of
        Some Dir \<Rightarrow> Inl IsADirectoryError
      | Some (File old) \<Rightarrow>
          (case write_denied E True path of
             Some e \<Rightarrow> Inl e
           | None \<Rightarrow> Inr (put E path (File []) fs))
      | None \<Rightarrow>
          (case write_denied E False path of
             Some e \<Rightarrow> Inl e
           | None \<Rightarrow> Inr (put E path (File []) fs)))"

text \<open>
  \<^verbatim>\<open>os.listdir(d)\<close>. The order of the names is the operating system's; \<open>names\<close> is the
  enumeration it gives for this call.
\<close>

definition os_listdir :: "string list \<Rightarrow> fs \<Rightarrow> string \<Rightarrow> error + string list" where
  "os_listdir names fs d =
     (case fs d of
        None \<Rightarrow> Inl FileNotFoundError
      | Some (File _) \<Rightarrow> Inl NotADirectoryError
      | Some Dir \<Rightarrow> Inr names)"

text \<open>
  A directory entry's name is not empty, holds no separator and is neither \<^verbatim>\<open>.\<close> nor
  \<^verbatim>\<open>..\<close>. \<open>lists_dir fs d names\<close>: \<open>names\<close> enumerates the entries of \<open>d\<close> in \<open>fs\<close>, each
  once.
\<close>

definition entry_name :: "string \<Rightarrow> bool" where
  "entry_name n = (n \<noteq> [] \<and> CHR ''/'' \<notin> set n \<and> n \<noteq> ''.'' \<and> n \<noteq> ''..'')"

definition lists_dir :: "fs \<Rightarrow> string \<Rightarrow> string list \<Rightarrow> bool" where
  "lists_dir fs d names =
     (distinct names \<and> (\<forall>n. (n \<in> set names) = (entry_name n \<and> fs (os_path_join d n) \<noteq> None)))"

section \<open>The Batch Document Converter (\<^verbatim>\<open>pdf_to_md.py\<close>)\<close>

text \<open>
  \<^verbatim>\<open>pdfminer.high_level.extract_text(pdf_path)\<close> opens the path for binary reading and
  hands the stream to the parser.
\<close>

definition extract_text :: "env \<Rightarrow> fs \<Rightarrow> string \<Rightarrow> error + pystr" where
  "extract_text E fs pdf_path =
     (case read_file E fs pdf_path of Inl e \<Rightarrow> Inl e | Inr content \<Rightarrow> pdf_parse E content)"

text \<open>
  \<^verbatim>\<open>
  def pdf_to_markdown(pdf_path, md_path):
      text = extract_text(pdf_path)
      with open(md_path, "w", encoding="utf-8") as f:
          f.write(text)
  \<close>
  The result is the world the call leaves and the exception it raised, if any. When
  \<^verbatim>\<open>f.write\<close> raises, the file has been opened already and stays empty.
\<close>

definition pdf_to_markdown :: "env \<Rightarrow> string \<Rightarrow> string \<Rightarrow> world \<Rightarrow> world \<times> error option" where
  "pdf_to_markdown E pdf_path md_path w =
     (case extract_text E (files w) pdf_path of
        Inl e \<Rightarrow> (w, Some e)
      | Inr text \<Rightarrow>
          (case open_w E (files w) md_path of
             Inl e \<Rightarrow> (w, Some e)
           | Inr fs1 \<Rightarrow>
               (case utf8_encode (translate_newlines (linesep E) text) of
                  Inl e \<Rightarrow> (w\<lparr>files := fs1\<rparr>, Some e)
                | Inr bytes \<Rightarrow> (w\<lparr>files := put E md_path (File bytes) fs1\<rparr>, None))))"

text \<open>
  \<^verbatim>\<open>
      pdf_dir = "doc"
      for filename in os.listdir(pdf_dir):
          if filename.endswith(".pdf"):
              pdf_path = os.path.join(pdf_dir, filename)
              md_filename = os.path.splitext(filename)[0] + ".md"
              md_path = os.path.join(pdf_dir, md_filename)
              pdf_to_markdown(pdf_path, md_path)
  \<close>
  \<open>convert_loop\<close> is the \<^verbatim>\<open>for\<close> loop over the list that \<^verbatim>\<open>os.listdir\<close> returned; an
  exception leaves the loop at once. \<open>main\<close> is the script.
\<close>

definition pdf_dir :: string where
  "pdf_dir = ''doc''"

fun convert_loop :: "env \<Rightarrow> string list \<Rightarrow> world \<Rightarrow> world \<times> error option" where
  "convert_loop E [] w = (w, None)"
| "convert_loop E (filename # rest) w =
     (if endswith filename ''.pdf'' then
        (let pdf_path = os_path_join pdf_dir filename;
             md_filename = fst (os_path_splitext filename) @ ''.md'';
             md_path = os_path_join pdf_dir md_filename
         in case pdf_to_markdown E pdf_path md_path w of
              (w', Some e) \<Rightarrow> (w', Some e)
            | (w', None) \<Rightarrow> convert_loop E rest w')
      else convert_loop E rest w)"

definition main :: "env \<Rightarrow> string list \<Rightarrow> world \<Rightarrow> world \<times> error option" where
  "main E names w =
     (case os_listdir names (files w) pdf_dir of
        Inl e \<Rightarrow> (w, Some e)
      | Inr filenames \<Rightarrow> convert_loop E filenames w)"

text \<open>
  The three values that the loop body computes from \<^verbatim>\<open>filename\<close>, as functions of it:
  \<open>pdf_path_of\<close> and \<open>md_path_of\<close> are the source and the destination path of a batch
  entry.
\<close>

definition pdf_path_of :: "string \<Rightarrow> string" where
  "pdf_path_of filename = os_path_join pdf_dir filename"

definition md_filename_of :: "string \<Rightarrow> string" where
  "md_filename_of filename = fst (os_path_splitext filename) @ ''.md''"

definition md_path_of :: "string \<Rightarrow> string" where
  "md_path_of filename = os_path_join pdf_dir (md_filename_of filename)"

subsection \<open>What a run does, read off the file system it starts from\<close>

text \<open>
  Two provisos about the host that statements on whole runs need. The destinations of a
  listing are unlinked when no destination path of a \<^verbatim>\<open>.pdf\<close> entry names the same file as
  another path. They are steady when the operating system's answer for opening a
  destination is the same whether or not the file is there already.
\<close>

definition unlinked_destinations :: "env \<Rightarrow> string list \<Rightarrow> bool" where
  "unlinked_destinations E names =
     (\<forall>n\<in>set names. endswith n ''.pdf'' \<longrightarrow> links E (md_path_of n) = {})"

definition steady_destinations :: "env \<Rightarrow> string list \<Rightarrow> bool" where
  "steady_destinations E names =
     (\<forall>n\<in>set names. endswith n ''.pdf'' \<longrightarrow>
        write_denied E True (md_path_of n) = write_denied E False (md_path_of n))"

text \<open>
  Devices for the proofs about whole runs. \<open>open_w_error\<close> is the exception that
  \<open>open_w\<close> raises, if any. \<open>attempt E fs filename\<close> is what converting one entry writes
  and raises, computed from \<open>fs\<close>; \<open>effects\<close> strings the attempts of a listing together
  up to the first exception; \<open>written ws fs\<close> is \<open>fs\<close> after the writes \<open>ws\<close>, in order,
  where nothing is linked. Two file systems agree on a set \<open>D\<close> of destinations when they
  differ at most under paths ending in \<^verbatim>\<open>.md\<close> and open the paths of \<open>D\<close> alike.
  \<open>reopen_ok\<close>: a destination that a listing opens again later is steady.
\<close>

definition open_w_error :: "env \<Rightarrow> fs \<Rightarrow> string \<Rightarrow> error option" where
  "open_w_error E fs path =
     (case fs path of
        Some Dir \<Rightarrow> Some IsADirectoryError
      | Some (File old) \<Rightarrow> write_denied E True path
      | None \<Rightarrow> write_denied E False path)"

definition attempt :: "env \<Rightarrow> fs \<Rightarrow> string \<Rightarrow> (string \<times> node) list \<times> error option" where
  "attempt E fs filename =
     (case extract_text E fs (pdf_path_of filename) of
        Inl e \<Rightarrow> ([], Some e)
      | Inr text \<Rightarrow>
          (case open_w E fs (md_path_of filename) of
             Inl e \<Rightarrow> ([], Some e)
           | Inr fs1 \<Rightarrow>
               (case utf8_encode (translate_newlines (linesep E) text) of
                  Inl e \<Rightarrow> ([(md_path_of filename, File [])], Some e)
                | Inr bytes \<Rightarrow> ([(md_path_of filename, File bytes)], None))))"

fun effects :: "env \<Rightarrow> fs \<Rightarrow> string list \<Rightarrow> (string \<times> node) list \<times> error option" where
  "effects E fs [] = ([], None)"
| "effects E fs (filename # rest) =
     (if endswith filename ''.pdf'' then
        (case attempt E fs filename of
           (ws, Some e) \<Rightarrow> (ws, Some e)
         | (ws, None) \<Rightarrow> (case effects E fs rest of (ws', r) \<Rightarrow> (ws @ ws', r)))
      else effects E fs rest)"

definition written :: "(string \<times> node) list \<Rightarrow> fs \<Rightarrow> fs" where
  "written ws fs = fs ++ map_of (rev ws)"

definition agree_on :: "string set \<Rightarrow> env \<Rightarrow> fs \<Rightarrow> fs \<Rightarrow> bool" where
  "agree_on D E fs fs' =
     ((\<forall>p. \<not> endswith p ''.md'' \<longrightarrow> fs' p = fs p) \<and>
      (\<forall>p\<in>D. open_w_error E fs' p = open_w_error E fs p))"

fun reopen_ok :: "env \<Rightarrow> string list \<Rightarrow> bool" where
  "reopen_ok E [] = True"
| "reopen_ok E (filename # rest) =
     ((endswith filename ''.pdf'' \<longrightarrow>
         write_denied E True (md_path_of filename) = write_denied E False (md_path_of filename) \<or>
         md_path_of filename \<notin> md_path_of ` {n \<in> set rest. endswith n ''.pdf''}) \<and>
      reopen_ok E rest)"

section \<open>The Image Generator (\<^verbatim>\<open>create-test-image.py\<close>)\<close>

text \<open>
  The canvas of the image library, described by how it was made: its mode, its
  dimensions, the colour it was filled with and what was drawn on it since. Rasterising
  and encoding belong to the library: the encoders it has registered, by format name, are
  a parameter.
\<close>

datatype draw_op = DrawText "int \<times> int" string string

record image =
  mode :: string
  dimensions :: "nat \<times> nat"
  background :: string
  drawn :: "draw_op list"

record pil =
  save_handler :: "string \<Rightarrow> (image \<Rightarrow> error + byte list) option"

text \<open>\<^verbatim>\<open>Image.new(mode, size, color=...)\<close>.\<close>

definition Image_new :: "string \<Rightarrow> nat \<times> nat \<Rightarrow> string \<Rightarrow> image" where
  "Image_new m sz c = \<lparr>mode = m, dimensions = sz, background = c, drawn = []\<rparr>"

text \<open>
  \<^verbatim>\<open>ImageDraw.Draw(img).text(xy, text, fill=...)\<close>: the drawing object draws into the
  image it was made for.
\<close>

definition ImageDraw_text :: "image \<Rightarrow> int \<times> int \<Rightarrow> string \<Rightarrow> string \<Rightarrow> image" where
  "ImageDraw_text img xy txt fill = img\<lparr>drawn := drawn img @ [DrawText xy txt fill]\<rparr>"

text \<open>
  \<^verbatim>\<open>img.save(path, format)\<close>: an unknown format raises before the file is touched;
  otherwise the file is opened for writing and the encoder's output goes into it. When the
  encoder raises, the library removes the file if the call created it.
\<close>

definition Image_save :: "pil \<Rightarrow> env \<Rightarrow> image \<Rightarrow> string \<Rightarrow> string \<Rightarrow> fs \<Rightarrow> fs \<times> error option" where
  "Image_save L E img path fmt fs =
     (case save_handler L fmt of
        None \<Rightarrow> (fs, Some KeyError)
      | Some handler \<Rightarrow>
          (case open_w E fs path of
             Inl e \<Rightarrow> (fs, Some e)
           | Inr fs1 \<Rightarrow>
               (case handler img of
                  Inl e \<Rightarrow> (if fs path = None then fs else fs1, Some e)
                | Inr bytes \<Rightarrow> (put E path (File bytes) fs1, None))))"

text \<open>
  \<^verbatim>\<open>
  img = Image.new('RGB', (300, 200), color='lightblue')
  draw = ImageDraw.Draw(img)
  draw.text((50, 90), "Test Image", fill='black')
  img.save('test-image.jpg', 'JPEG')
  print("Test image created successfully")
  \<close>
\<close>

definition create_test_image :: "pil \<Rightarrow> env \<Rightarrow> world \<Rightarrow> world \<times> error option" where
  "create_test_image L E w =
     (let img = Image_new ''RGB'' (300, 200) ''lightblue'';
          img = ImageDraw_text img (50, 90) ''Test Image'' ''black''
      in case Image_save L E img ''test-image.jpg'' ''JPEG'' (files w) of
           (fs', Some e) \<Rightarrow> (w\<lparr>files := fs'\<rparr>, Some e)
         | (fs', None) \<Rightarrow> (py_print ''Test image created successfully'' (w\<lparr>files := fs'\<rparr>), None))"

section \<open>A sample environment\<close>

text \<open>
  For the worked examples: a stand-in parser that rejects the empty file, as the PDF
  library does, and otherwise returns the bytes as code points; a POSIX host with no
  links that refuses nothing; an image library with a stand-in JPEG encoder. Three
  variations of the host: one whose line separator is carriage return and line feed, one
  that lets files be created and not opened again, and one where two paths are links to
  the same file.
\<close>

definition sample_parse :: "byte list \<Rightarrow> error + pystr" where
  "sample_parse content = (if content = [] then Inl PDFSyntaxError else Inr (map unat content))"

definition sample_env :: env where
  "sample_env =
     \<lparr>pdf_parse = sample_parse, linesep = [10], links = (\<lambda>p. {}),
      read_denied = (\<lambda>p. None), write_denied = (\<lambda>present p. None)\<rparr>"

definition crlf_env :: env where
  "crlf_env = sample_env\<lparr>linesep := [13, 10]\<rparr>"

definition umask_env :: env where
  "umask_env =
     sample_env\<lparr>write_denied := (\<lambda>present p. if present then Some PermissionError else None)\<rparr>"

definition linked_env :: "string \<Rightarrow> string \<Rightarrow> env" where
  "linked_env a b =
     sample_env\<lparr>links := (\<lambda>p. if p = a then {b} else if p = b then {a} else {})\<rparr>"

definition sample_pil :: pil where
  "sample_pil =
     \<lparr>save_handler = (\<lambda>fmt. if fmt = ''JPEG'' then Some (\<lambda>img. Inr [0xFF, 0xD8, 0xFF, 0xD9]) else None)\<rparr>"

definition doc_with :: "(string \<times> node) list \<Rightarrow> world" where
  "doc_with entries =
     \<lparr>files = (map_of (map (\<lambda>(n, x). (''doc/'' @ n, x)) entries))(''doc'' \<mapsto> Dir), stdout = []\<rparr>"

section \<open>Facts about the runtime operations\<close>

subsection \<open>Suffixes\<close>

lemma endswith_iff: "endswith s suf \<longleftrightarrow> (\<exists>pre. s = pre @ suf)"
proof
  assume "endswith s suf"
  then have "s = take (length s - length suf) s @ suf"
    unfolding endswith_def by (metis append_take_drop_id)
  then show "\<exists>pre. s = pre @ suf" ..
next
  assume "\<exists>pre. s = pre @ suf"
  then show "endswith s suf" by (auto simp: endswith_def)
qed

lemma endswith_append [simp]: "endswith (pre @ suf) suf"
  by (simp add: endswith_def)

lemma endswith_same_length:
  "endswith s a \<Longrightarrow> endswith s b \<Longrightarrow> length a = length b \<Longrightarrow> a = b"
  by (auto simp: endswith_def)

lemma endswith_md_not_pdf: "endswith p ''.md'' \<Longrightarrow> \<not> endswith p ''.pdf''"
proof
  assume md: "endswith p ''.md''" and pdf: "endswith p ''.pdf''"
  from pdf obtain q where "p = q @ ''.pdf''" by (auto simp: endswith_iff)
  with md show False by (simp add: endswith_def)
qed

lemma endswith_PDF_not_pdf: "endswith p ''.PDF'' \<Longrightarrow> \<not> endswith p ''.pdf''"
  using endswith_same_length [of p "''.PDF''" "''.pdf''"] by auto

subsection \<open>Joining and splitting names\<close>

text \<open>
  For a name \<open>X.pdf\<close> with no separator, \<^verbatim>\<open>splitext\<close> cuts at the last dot when \<open>X\<close>
  has a character other than the dot, and does not cut at all when \<open>X\<close> is empty or made
  of dots only.
\<close>

lemma os_path_join_endswith:
  "endswith b suf \<Longrightarrow> endswith (os_path_join a b) suf"
  by (auto simp: os_path_join_def endswith_iff)

lemma os_path_join_doc: "CHR ''/'' \<notin> set n \<Longrightarrow> os_path_join pdf_dir n = ''doc/'' @ n"
  by (cases n) (auto simp: os_path_join_def pdf_dir_def startswith_def endswith_def)

lemma rfind_absent: "c \<notin> set p \<Longrightarrow> rfind p c = - 1"
  by (induction p) (auto simp: Let_def)

lemma rfind_append_dot_pdf: "rfind (X @ ''.pdf'') CHR ''.'' = int (length X)"
  by (induction X) (auto simp: Let_def)

lemma splitext_scan_iff:
  "splitext_scan p i d \<longleftrightarrow> (\<exists>k. i \<le> k \<and> k < d \<and> take 1 (drop k p) \<noteq> ''.'')"
proof (induction p i d rule: splitext_scan.induct)
  case (1 p i d)
  show ?case
  proof (cases "i < d")
    case False
    then show ?thesis by (subst splitext_scan.simps) auto
  next
    case True
    show ?thesis
    proof (cases "take 1 (drop i p) \<noteq> ''.''")
      case True
      with \<open>i < d\<close> show ?thesis by (subst splitext_scan.simps) auto
    next
      case False
      then have eq: "splitext_scan p i d = splitext_scan p (Suc i) d"
        using \<open>i < d\<close> by (subst splitext_scan.simps) simp
      have "(\<exists>k. i \<le> k \<and> k < d \<and> take 1 (drop k p) \<noteq> ''.'') =
            (\<exists>k. Suc i \<le> k \<and> k < d \<and> take 1 (drop k p) \<noteq> ''.'')"
        using False by (metis Suc_leI le_neq_implies_less Suc_leD)
      with eq "1.IH"[OF \<open>i < d\<close>] False show ?thesis by simp
    qed
  qed
qed

lemma take_one_drop: "k < length p \<Longrightarrow> take (Suc 0) (drop k p) = [p ! k]"
  by (simp add: Cons_nth_drop_Suc[symmetric])

lemma splitext_dot_pdf_stem:
  assumes "CHR ''/'' \<notin> set X" and "\<exists>c\<in>set X. c \<noteq> CHR ''.''"
  shows "os_path_splitext (X @ ''.pdf'') = (X, ''.pdf'')"
proof -
  have sep: "rfind (X @ ''.pdf'') CHR ''/'' = - 1"
    using assms(1) by (intro rfind_absent) simp
  from assms(2) obtain k where k: "k < length X" "X ! k \<noteq> CHR ''.''"
    by (auto simp: in_set_conv_nth)
  then have "take 1 (drop k (X @ ''.pdf'')) \<noteq> ''.''"
    by (simp add: take_one_drop nth_append)
  with k have "splitext_scan (X @ ''.pdf'') 0 (length X)"
    unfolding splitext_scan_iff by blast
  then show ?thesis
    by (simp add: os_path_splitext_def sep rfind_append_dot_pdf Let_def)
qed

lemma splitext_dot_pdf_dots:
  assumes "CHR ''/'' \<notin> set X" and "\<forall>c\<in>set X. c = CHR ''.''"
  shows "os_path_splitext (X @ ''.pdf'') = (X @ ''.pdf'', [])"
proof -
  have sep: "rfind (X @ ''.pdf'') CHR ''/'' = - 1"
    using assms(1) by (intro rfind_absent) simp
  have "\<not> splitext_scan (X @ ''.pdf'') 0 (length X)"
    unfolding splitext_scan_iff using assms(2)
    by (auto simp: take_one_drop nth_append)
  then show ?thesis
    by (simp add: os_path_splitext_def sep rfind_append_dot_pdf Let_def)
qed

subsection \<open>UTF-8: the encoded bytes hold the text and nothing else\<close>

lemma translate_newlines_lf [simp]: "translate_newlines [10] s = s"
  by (simp add: translate_newlines_def)

lemma translate_newlines_no_lf: "10 \<notin> set s \<Longrightarrow> translate_newlines nl s = s"
  by (induction s) (auto simp: translate_newlines_def)

lemma translate_newlines_verbatim:
  "nl = [10] \<or> 10 \<notin> set s \<Longrightarrow> translate_newlines nl s = s"
  by (auto simp: translate_newlines_no_lf)

lemma translate_newlines_nonempty:
  "s \<noteq> [] \<Longrightarrow> nl \<noteq> [] \<Longrightarrow> translate_newlines nl s \<noteq> []"
  by (cases s) (auto simp: translate_newlines_def)

lemma base64_step: "(q::nat) = qd * 64 + qm \<Longrightarrow> c = q * 64 + cm \<Longrightarrow> qd * 4096 + qm * 64 + cm = c"
  by simp

lemma base64_digits3: "(c::nat) div 4096 * 4096 + c div 64 mod 64 * 64 + c mod 64 = c"
proof -
  have a: "c div 4096 = c div 64 div 64" by (simp add: div_mult2_eq)
  have "c div 64 = c div 64 div 64 * 64 + c div 64 mod 64" by simp
  moreover have "c = c div 64 * 64 + c mod 64" by simp
  ultimately show ?thesis unfolding a by (rule base64_step)
qed

lemma base64_step4:
  "(q::nat) = qd * 64 + qm \<Longrightarrow> qd' * 4096 + qm' * 64 + cm = c \<Longrightarrow> qd' = q \<Longrightarrow>
     qd * 262144 + qm * 4096 + qm' * 64 + cm = c"
  by simp

lemma base64_digits4:
  "(c::nat) div 262144 * 262144 + c div 4096 mod 64 * 4096 + c div 64 mod 64 * 64 + c mod 64 = c"
proof -
  have a: "c div 262144 = c div 4096 div 64" by (simp add: div_mult2_eq)
  have "c div 4096 = c div 4096 div 64 * 64 + c div 4096 mod 64" by simp
  then show ?thesis unfolding a using base64_digits3 [of c] by (rule base64_step4) simp
qed

lemma unat_byte_of: "n < 256 \<Longrightarrow> unat (byte_of n) = n"
  by (simp add: byte_of_def unat_of_nat)

lemma utf8_decode_1:
  "unat b < 0x80 \<Longrightarrow> utf8_decode (b # r) = map_option ((#) (unat b)) (utf8_decode r)"
  by simp

lemma utf8_decode_2:
  "0xC0 \<le> unat b \<Longrightarrow> unat b < 0xE0 \<Longrightarrow>
     utf8_decode (b # b1 # r) =
       map_option ((#) ((unat b - 0xC0) * 64 + (unat b1 - 0x80))) (utf8_decode r)"
  by simp

lemma utf8_decode_3:
  "0xE0 \<le> unat b \<Longrightarrow> unat b < 0xF0 \<Longrightarrow>
     utf8_decode (b # b1 # b2 # r) =
       map_option ((#) ((unat b - 0xE0) * 4096 + (unat b1 - 0x80) * 64 + (unat b2 - 0x80)))
         (utf8_decode r)"
  by simp

lemma utf8_decode_4:
  "0xF0 \<le> unat b \<Longrightarrow>
     utf8_decode (b # b1 # b2 # b3 # r) =
       map_option
         ((#) ((unat b - 0xF0) * 262144 + (unat b1 - 0x80) * 4096 + (unat b2 - 0x80) * 64 +
               (unat b3 - 0x80)))
         (utf8_decode r)"
  by simp

lemma utf8_char_cases:
  assumes "utf8_char c = Some cb"
  obtains
    (one) "c < 0x80" "cb = [byte_of c]"
  | (two) "0x80 \<le> c" "c < 0x800" "cb = [byte_of (0xC0 + c div 64), byte_of (0x80 + c mod 64)]"
  | (three) "0x800 \<le> c" "c < 0x10000"
      "cb = [byte_of (0xE0 + c div 4096), byte_of (0x80 + c div 64 mod 64),
             byte_of (0x80 + c mod 64)]"
  | (four) "0x10000 \<le> c" "c < 0x110000"
      "cb = [byte_of (0xF0 + c div 262144), byte_of (0x80 + c div 4096 mod 64),
             byte_of (0x80 + c div 64 mod 64), byte_of (0x80 + c mod 64)]"
  using assms unfolding utf8_char_def by (simp split: if_splits) 

lemma utf8_decode_one:
  assumes "c < 0x80"
  shows "utf8_decode (byte_of c # rest) = map_option ((#) c) (utf8_decode rest)"
proof -
  from assms have u: "unat (byte_of c) = c" by (simp add: unat_byte_of)
  from assms have "unat (byte_of c) < 0x80" unfolding u .
  from utf8_decode_1 [OF this] show ?thesis unfolding u .
qed

lemma utf8_decode_two:
  assumes "0x80 \<le> c" "c < 0x800"
  shows "utf8_decode (byte_of (0xC0 + c div 64) # byte_of (0x80 + c mod 64) # rest) =
           map_option ((#) c) (utf8_decode rest)"
proof -
  from assms have u: "unat (byte_of (0xC0 + c div 64)) = 0xC0 + c div 64"
      "unat (byte_of (0x80 + c mod 64)) = 0x80 + c mod 64"
    by (simp_all add: unat_byte_of)
  from assms have r: "0xC0 \<le> unat (byte_of (0xC0 + c div 64))"
      "unat (byte_of (0xC0 + c div 64)) < 0xE0"
    unfolding u by simp_all
  have "c div 64 * 64 + c mod 64 = c" by simp
  then show ?thesis unfolding utf8_decode_2 [OF r] u by simp
qed

lemma utf8_decode_three:
  assumes "0x800 \<le> c" "c < 0x10000"
  shows "utf8_decode (byte_of (0xE0 + c div 4096) # byte_of (0x80 + c div 64 mod 64) #
                      byte_of (0x80 + c mod 64) # rest) =
           map_option ((#) c) (utf8_decode rest)"
proof -
  from assms have u: "unat (byte_of (0xE0 + c div 4096)) = 0xE0 + c div 4096"
      "unat (byte_of (0x80 + c div 64 mod 64)) = 0x80 + c div 64 mod 64"
      "unat (byte_of (0x80 + c mod 64)) = 0x80 + c mod 64"
    by (simp_all add: unat_byte_of)
  from assms have r: "0xE0 \<le> unat (byte_of (0xE0 + c div 4096))"
      "unat (byte_of (0xE0 + c div 4096)) < 0xF0"
    unfolding u by simp_all
  from base64_digits3 [of c] show ?thesis unfolding utf8_decode_3 [OF r] u by simp
qed

lemma utf8_decode_four:
  assumes "0x10000 \<le> c" "c < 0x110000"
  shows "utf8_decode (byte_of (0xF0 + c div 262144) # byte_of (0x80 + c div 4096 mod 64) #
                      byte_of (0x80 + c div 64 mod 64) # byte_of (0x80 + c mod 64) # rest) =
           map_option ((#) c) (utf8_decode rest)"
proof -
  from assms have u: "unat (byte_of (0xF0 + c div 262144)) = 0xF0 + c div 262144"
      "unat (byte_of (0x80 + c div 4096 mod 64)) = 0x80 + c div 4096 mod 64"
      "unat (byte_of (0x80 + c div 64 mod 64)) = 0x80 + c div 64 mod 64"
      "unat (byte_of (0x80 + c mod 64)) = 0x80 + c mod 64"
    by (simp_all add: unat_byte_of)
  from assms have r: "0xF0 \<le> unat (byte_of (0xF0 + c div 262144))"
    unfolding u by simp
  from base64_digits4 [of c] show ?thesis unfolding utf8_decode_4 [OF r] u by simp
qed

lemma utf8_decode_char:
  assumes "utf8_char c = Some cb"
  shows "utf8_decode (cb @ rest) = map_option ((#) c) (utf8_decode rest)"
  using assms
proof (cases rule: utf8_char_cases)
  case one
  then show ?thesis by (simp only: append_Cons append_Nil utf8_decode_one)
next
  case two
  then show ?thesis by (simp only: append_Cons append_Nil utf8_decode_two)
next
  case three
  then show ?thesis by (simp only: append_Cons append_Nil utf8_decode_three)
next
  case four
  then show ?thesis by (simp only: append_Cons append_Nil utf8_decode_four)
qed

lemma utf8_roundtrip: "utf8_encode t = Inr bs \<Longrightarrow> utf8_decode bs = Some t"
proof (induction t arbitrary: bs)
  case Nil
  then show ?case by simp
next
  case (Cons c t)
  from Cons.prems obtain cb rest where
    cb: "utf8_char c = Some cb" and rest: "utf8_encode t = Inr rest" and bs: "bs = cb @ rest"
    by (auto split: option.splits sum.splits)
  from Cons.IH [OF rest] show ?case
    unfolding bs utf8_decode_char [OF cb] by simp
qed

lemma utf8_char_nonempty: "utf8_char c = Some cb \<Longrightarrow> cb \<noteq> []"
  by (erule utf8_char_cases) simp_all

lemma utf8_encode_nonempty: "utf8_encode t = Inr bs \<Longrightarrow> t \<noteq> [] \<Longrightarrow> bs \<noteq> []"
  by (cases t) (auto dest: utf8_char_nonempty split: option.splits sum.splits)

subsection \<open>Opening and writing a file\<close>

lemma put_same [simp]: "put E p x fs p = Some x"
  by (simp add: put_def)

lemma put_other: "q \<noteq> p \<Longrightarrow> q \<notin> links E p \<Longrightarrow> put E p x fs q = fs q"
  by (simp add: put_def)

lemma put_put [simp]: "put E p x (put E p y fs) = put E p x fs"
  by (simp add: put_def fun_eq_iff)

lemma put_unlinked: "links E p = {} \<Longrightarrow> put E p x fs = fs(p \<mapsto> x)"
  by (simp add: put_def fun_eq_iff)

lemma open_w_by_error:
  "open_w E fs p =
     (case open_w_error E fs p of Some e \<Rightarrow> Inl e | None \<Rightarrow> Inr (put E p (File []) fs))"
  by (simp add: open_w_def open_w_error_def split: option.splits node.splits)

lemma open_w_error_cong: "fs' p = fs p \<Longrightarrow> open_w_error E fs' p = open_w_error E fs p"
  by (simp add: open_w_error_def)

lemma open_w_error_steady:
  "write_denied E True p = write_denied E False p \<Longrightarrow>
   (fs' p = Some Dir) = (fs p = Some Dir) \<Longrightarrow>
     open_w_error E fs' p = open_w_error E fs p"
  by (auto simp: open_w_error_def split: option.splits node.splits)

section \<open>Facts about the converter\<close>

subsection \<open>Source and destination of an entry\<close>

lemma md_path_of_endswith_md: "endswith (md_path_of filename) ''.md''"
  unfolding md_path_of_def md_filename_of_def by (rule os_path_join_endswith) simp

lemma pdf_path_of_endswith_pdf:
  "endswith filename ''.pdf'' \<Longrightarrow> endswith (pdf_path_of filename) ''.pdf''"
  unfolding pdf_path_of_def by (rule os_path_join_endswith)

lemma md_path_of_neq_pdf_path_of:
  "endswith filename ''.pdf'' \<Longrightarrow> md_path_of other \<noteq> pdf_path_of filename"
  using md_path_of_endswith_md [of other] pdf_path_of_endswith_pdf [of filename]
    endswith_md_not_pdf by metis

lemma md_filename_stem:
  "CHR ''/'' \<notin> set X \<Longrightarrow> \<exists>c\<in>set X. c \<noteq> CHR ''.'' \<Longrightarrow> md_filename_of (X @ ''.pdf'') = X @ ''.md''"
  by (simp add: md_filename_of_def splitext_dot_pdf_stem)

lemma md_filename_dots:
  "CHR ''/'' \<notin> set X \<Longrightarrow> \<forall>c\<in>set X. c = CHR ''.'' \<Longrightarrow> md_filename_of (X @ ''.pdf'') = X @ ''.pdf.md''"
  by (simp add: md_filename_of_def splitext_dot_pdf_dots)

lemma md_path_of_stem:
  "CHR ''/'' \<notin> set X \<Longrightarrow> \<exists>c\<in>set X. c \<noteq> CHR ''.'' \<Longrightarrow> md_path_of (X @ ''.pdf'') = ''doc/'' @ X @ ''.md''"
  by (simp add: md_path_of_def md_filename_stem os_path_join_doc)

lemma pdf_path_of_doc: "CHR ''/'' \<notin> set n \<Longrightarrow> pdf_path_of n = ''doc/'' @ n"
  by (simp add: pdf_path_of_def os_path_join_doc)

lemma pdf_dir_not_md: "\<not> endswith pdf_dir ''.md''"
  by code_simp

lemma entry_name_dot_pdf: "CHR ''/'' \<notin> set X \<Longrightarrow> entry_name (X @ ''.pdf'')"
  by (cases X rule: rev_cases) (auto simp: entry_name_def)

text \<open>
  Two \<^verbatim>\<open>.pdf\<close> entries of a directory have the same destination only when one is a name
  of dots followed by \<^verbatim>\<open>.pdf\<close> and the other is that name followed by \<^verbatim>\<open>.pdf\<close> once more.
\<close>

lemma md_path_of_dots:
  "CHR ''/'' \<notin> set X \<Longrightarrow> \<forall>c\<in>set X. c = CHR ''.'' \<Longrightarrow>
     md_path_of (X @ ''.pdf'') = ''doc/'' @ X @ ''.pdf.md''"
  by (simp add: md_path_of_def md_filename_dots os_path_join_doc)

lemma destination_shared:
  assumes m: "endswith m ''.pdf''" "CHR ''/'' \<notin> set m"
    and n: "endswith n ''.pdf''" "CHR ''/'' \<notin> set n"
    and "m \<noteq> n" and same: "md_path_of m = md_path_of n"
  shows "\<exists>D. (\<forall>c\<in>set D. c = CHR ''.'') \<and>
           (m = D @ ''.pdf'' \<and> n = m @ ''.pdf'' \<or> n = D @ ''.pdf'' \<and> m = n @ ''.pdf'')"
proof -
  from m(1) obtain X where X: "m = X @ ''.pdf''" by (auto simp: endswith_iff)
  from n(1) obtain Y where Y: "n = Y @ ''.pdf''" by (auto simp: endswith_iff)
  from m(2) X have sX: "CHR ''/'' \<notin> set X" by simp
  from n(2) Y have sY: "CHR ''/'' \<notin> set Y" by simp
  show ?thesis
  proof (cases "\<exists>c\<in>set X. c \<noteq> CHR ''.''")
    case True
    note pX = md_path_of_stem [OF sX True]
    show ?thesis
    proof (cases "\<exists>c\<in>set Y. c \<noteq> CHR ''.''")
      case True
      from same pX md_path_of_stem [OF sY True] have "X = Y" unfolding X Y by simp
      with \<open>m \<noteq> n\<close> X Y show ?thesis by simp
    next
      case False
      then have dY: "\<forall>c\<in>set Y. c = CHR ''.''" by simp
      from same pX md_path_of_dots [OF sY dY] have "X = Y @ ''.pdf''" unfolding X Y by simp
      with X Y dY show ?thesis by auto
    qed
  next
    case False
    then have dX: "\<forall>c\<in>set X. c = CHR ''.''" by simp
    note pX = md_path_of_dots [OF sX dX]
    show ?thesis
    proof (cases "\<exists>c\<in>set Y. c \<noteq> CHR ''.''")
      case True
      from same pX md_path_of_stem [OF sY True] have "Y = X @ ''.pdf''" unfolding X Y by simp
      with X Y dX show ?thesis by auto
    next
      case False
      then have dY: "\<forall>c\<in>set Y. c = CHR ''.''" by simp
      from same pX md_path_of_dots [OF sY dY] have "X = Y" unfolding X Y by simp
      with \<open>m \<noteq> n\<close> X Y show ?thesis by simp
    qed
  qed
qed

subsection \<open>One conversion\<close>

lemma extract_text_cong: "fs' p = fs p \<Longrightarrow> extract_text E fs' p = extract_text E fs p"
  by (simp add: extract_text_def read_file_def split: option.splits)

lemma extract_text_directory:
  "files w p = Some Dir \<Longrightarrow> read_denied E p = None \<Longrightarrow>
     extract_text E (files w) p = Inl IsADirectoryError"
  by (simp add: extract_text_def read_file_def)

lemma pdf_to_markdown_frame:
  assumes "pdf_to_markdown E pdf_path md_path w = (w', r)"
  shows "stdout w' = stdout w"
    and "\<And>q. q \<noteq> md_path \<Longrightarrow> q \<notin> links E md_path \<Longrightarrow> files w' q = files w q"
  using assms
  by (auto simp: pdf_to_markdown_def open_w_def put_def
           split: sum.splits option.splits node.splits)

lemma pdf_to_markdown_success:
  assumes "extract_text E (files w) pdf_path = Inr text"
    and "utf8_encode (translate_newlines (linesep E) text) = Inr bytes"
    and "files w md_path \<noteq> Some Dir"
    and "write_denied E (files w md_path \<noteq> None) md_path = None"
  shows "pdf_to_markdown E pdf_path md_path w =
           (w\<lparr>files := put E md_path (File bytes) (files w)\<rparr>, None)"
proof (cases "files w md_path")
  case None
  with assms show ?thesis by (simp add: pdf_to_markdown_def open_w_def)
next
  case (Some x)
  with assms(3) obtain old where "x = File old" by (cases x) auto
  with Some assms show ?thesis by (simp add: pdf_to_markdown_def open_w_def)
qed

lemma pdf_to_markdown_extract_fails:
  "extract_text E (files w) pdf_path = Inl e \<Longrightarrow> pdf_to_markdown E pdf_path md_path w = (w, Some e)"
  by (simp add: pdf_to_markdown_def)

lemma pdf_to_markdown_ok_D:
  assumes "pdf_to_markdown E pdf_path md_path w = (w', None)"
  shows "\<exists>text bytes. extract_text E (files w) pdf_path = Inr text \<and>
           utf8_encode (translate_newlines (linesep E) text) = Inr bytes \<and>
           w' = w\<lparr>files := put E md_path (File bytes) (files w)\<rparr>"
  using assms
  by (auto simp: pdf_to_markdown_def open_w_def split: sum.splits option.splits node.splits)

lemma pdf_to_markdown_raises_iff:
  "(\<exists>w'. pdf_to_markdown E pdf_path md_path w = (w', Some e)) =
     (extract_text E (files w) pdf_path = Inl e \<or>
      (\<exists>text. extract_text E (files w) pdf_path = Inr text \<and>
         (open_w E (files w) md_path = Inl e \<or>
          (\<exists>fs1. open_w E (files w) md_path = Inr fs1) \<and>
          utf8_encode (translate_newlines (linesep E) text) = Inl e)))"
  by (auto simp: pdf_to_markdown_def split: sum.splits)

subsection \<open>The loop\<close>

lemma convert_loop_Cons [simp]:
  "convert_loop E (filename # rest) w =
     (if endswith filename ''.pdf'' then
        (case pdf_to_markdown E (pdf_path_of filename) (md_path_of filename) w of
           (w', Some e) \<Rightarrow> (w', Some e)
         | (w', None) \<Rightarrow> convert_loop E rest w')
      else convert_loop E rest w)"
  by (simp add: pdf_path_of_def md_path_of_def md_filename_of_def)

declare convert_loop.simps(2) [simp del]

lemma convert_loop_append:
  "convert_loop E (xs @ ys) w =
     (case convert_loop E xs w of
        (w', Some e) \<Rightarrow> (w', Some e)
      | (w', None) \<Rightarrow> convert_loop E ys w')"
  by (induction xs arbitrary: w) (auto simp: Let_def split: prod.splits option.splits)

lemma convert_loop_skip:
  "\<not> endswith filename ''.pdf'' \<Longrightarrow>
     convert_loop E (pre @ filename # post) w = convert_loop E (pre @ post) w"
  by (simp add: convert_loop_append split: prod.splits option.splits)

lemma convert_loop_filter:
  "convert_loop E (filter (\<lambda>n. endswith n ''.pdf'') names) w = convert_loop E names w"
  by (induction names arbitrary: w) (auto simp: Let_def split: prod.splits option.splits)

lemma convert_loop_stdout:
  "convert_loop E names w = (w', r) \<Longrightarrow> stdout w' = stdout w"
proof (induction names arbitrary: w)
  case Nil
  then show ?case by simp
next
  case (Cons n names)
  show ?case
  proof (cases "endswith n ''.pdf''")
    case False
    with Cons show ?thesis by simp
  next
    case True
    obtain w1 r1 where step: "pdf_to_markdown E (pdf_path_of n) (md_path_of n) w = (w1, r1)"
      by (cases "pdf_to_markdown E (pdf_path_of n) (md_path_of n) w")
    have out: "stdout w1 = stdout w"
      using pdf_to_markdown_frame(1) [OF step] .
    show ?thesis
    proof (cases r1)
      case None
      with Cons.prems True step have "convert_loop E names w1 = (w', r)" by simp
      with Cons.IH out show ?thesis by simp
    next
      case (Some e)
      with Cons.prems True step out show ?thesis by auto
    qed
  qed
qed

text \<open>
  A run leaves a path alone that is neither the destination of a \<^verbatim>\<open>.pdf\<close> entry nor linked
  to one.
\<close>

lemma convert_loop_frame:
  "convert_loop E names w = (w', r) \<Longrightarrow>
   \<forall>n\<in>set names. endswith n ''.pdf'' \<longrightarrow> q \<noteq> md_path_of n \<and> q \<notin> links E (md_path_of n) \<Longrightarrow>
     files w' q = files w q"
proof (induction names arbitrary: w)
  case Nil
  then show ?case by simp
next
  case (Cons n names)
  have q: "\<forall>m\<in>set names. endswith m ''.pdf'' \<longrightarrow> q \<noteq> md_path_of m \<and> q \<notin> links E (md_path_of m)"
    using Cons.prems(2) by simp
  show ?case
  proof (cases "endswith n ''.pdf''")
    case False
    with Cons.prems(1) have "convert_loop E names w = (w', r)" by simp
    from Cons.IH [OF this q] show ?thesis .
  next
    case True
    obtain w1 r1 where step: "pdf_to_markdown E (pdf_path_of n) (md_path_of n) w = (w1, r1)"
      by (cases "pdf_to_markdown E (pdf_path_of n) (md_path_of n) w")
    from True Cons.prems(2) have "q \<noteq> md_path_of n" "q \<notin> links E (md_path_of n)" by simp_all
    then have same: "files w1 q = files w q"
      using pdf_to_markdown_frame(2) [OF step] by simp
    show ?thesis
    proof (cases r1)
      case None
      with Cons.prems(1) True step have "convert_loop E names w1 = (w', r)" by simp
      from Cons.IH [OF this q] same show ?thesis by simp
    next
      case (Some e)
      with Cons.prems(1) True step same show ?thesis by auto
    qed
  qed
qed

lemma convert_loop_keeps_non_md:
  assumes "convert_loop E names w = (w', r)" and "\<not> endswith q ''.md''"
    and "\<forall>n\<in>set names. endswith n ''.pdf'' \<longrightarrow> q \<notin> links E (md_path_of n)"
  shows "files w' q = files w q"
proof (rule convert_loop_frame [OF assms(1)])
  from assms(2) have "q \<noteq> md_path_of n" for n
    using md_path_of_endswith_md [of n] by auto
  with assms(3)
  show "\<forall>n\<in>set names. endswith n ''.pdf'' \<longrightarrow> q \<noteq> md_path_of n \<and> q \<notin> links E (md_path_of n)"
    by simp
qed

lemma convert_loop_step_ok:
  "endswith filename ''.pdf'' \<Longrightarrow>
   pdf_to_markdown E (pdf_path_of filename) (md_path_of filename) w = (w1, None) \<Longrightarrow>
   convert_loop E (filename # rest) w = convert_loop E rest w1"
  by simp

lemma convert_loop_step_raises:
  "endswith filename ''.pdf'' \<Longrightarrow>
   pdf_to_markdown E (pdf_path_of filename) (md_path_of filename) w = (w1, Some e) \<Longrightarrow>
   convert_loop E (filename # rest) w = (w1, Some e)"
  by simp

lemma convert_loop_directory_raises:
  assumes "endswith filename ''.pdf''" and "files w (pdf_path_of filename) = Some Dir"
  shows "\<exists>e. convert_loop E (filename # rest) w = (w, Some e)"
proof -
  from assms(2) have "\<exists>e. extract_text E (files w) (pdf_path_of filename) = Inl e"
    by (simp add: extract_text_def read_file_def split: option.splits)
  then obtain e where "extract_text E (files w) (pdf_path_of filename) = Inl e" ..
  from convert_loop_step_raises [OF assms(1) pdf_to_markdown_extract_fails [OF this]]
  show ?thesis ..
qed

lemma convert_loop_raises_at:
  assumes "convert_loop E pre w = (w1, None)"
    and "endswith filename ''.pdf''"
    and "pdf_to_markdown E (pdf_path_of filename) (md_path_of filename) w1 = (w2, Some e)"
  shows "convert_loop E (pre @ filename # post) w = (w2, Some e)"
  using assms by (simp add: convert_loop_append)

lemma unlinked_destinations_Cons:
  "unlinked_destinations E (n # names) =
     ((endswith n ''.pdf'' \<longrightarrow> links E (md_path_of n) = {}) \<and> unlinked_destinations E names)"
  by (simp add: unlinked_destinations_def)

lemma unlinked_destinations_filter:
  "unlinked_destinations E names =
     (\<forall>n\<in>set (filter (\<lambda>n. endswith n ''.pdf'') names). links E (md_path_of n) = {})"
  by (auto simp: unlinked_destinations_def)

lemma unlinked_destinations_set:
  assumes "set (filter (\<lambda>n. endswith n ''.pdf'') names2) =
           set (filter (\<lambda>n. endswith n ''.pdf'') names1)"
  shows "unlinked_destinations E names2 = unlinked_destinations E names1"
  unfolding unlinked_destinations_filter assms ..

lemma steady_destinations_filter:
  "steady_destinations E names =
     (\<forall>n\<in>set (filter (\<lambda>n. endswith n ''.pdf'') names).
        write_denied E True (md_path_of n) = write_denied E False (md_path_of n))"
  by (auto simp: steady_destinations_def)

lemma steady_destinations_set:
  assumes "set (filter (\<lambda>n. endswith n ''.pdf'') names2) =
           set (filter (\<lambda>n. endswith n ''.pdf'') names1)"
  shows "steady_destinations E names2 = steady_destinations E names1"
  unfolding steady_destinations_filter assms ..

lemma unlinked_untouched:
  "unlinked_destinations E names \<Longrightarrow>
     \<forall>n\<in>set names. endswith n ''.pdf'' \<longrightarrow> q \<notin> links E (md_path_of n)"
  by (simp add: unlinked_destinations_def)

lemma convert_loop_converted:
  assumes "convert_loop E names w = (w', None)"
    and "filename \<in> set names" and "endswith filename ''.pdf''"
    and "\<forall>m\<in>set names. endswith m ''.pdf'' \<longrightarrow> md_path_of m = md_path_of filename \<longrightarrow> m = filename"
    and "unlinked_destinations E names"
  shows "\<exists>text bytes. extract_text E (files w) (pdf_path_of filename) = Inr text \<and>
           utf8_encode (translate_newlines (linesep E) text) = Inr bytes \<and>
           files w' (md_path_of filename) = Some (File bytes)"
  using assms
proof (induction names arbitrary: w)
  case Nil
  then show ?case by simp
next
  case (Cons n names)
  have uniq: "\<forall>m\<in>set names. endswith m ''.pdf'' \<longrightarrow> md_path_of m = md_path_of filename \<longrightarrow> m = filename"
    using Cons.prems(4) by simp
  have unl: "unlinked_destinations E names"
    using Cons.prems(5) by (simp add: unlinked_destinations_Cons)
  show ?case
  proof (cases "endswith n ''.pdf''")
    case False
    with Cons.prems(1) have run: "convert_loop E names w = (w', None)" by simp
    from False Cons.prems(2,3) have "filename \<in> set names" by auto
    from Cons.IH [OF run this Cons.prems(3) uniq unl] show ?thesis .
  next
    case True
    with Cons.prems(5) have nolink: "links E (md_path_of n) = {}"
      by (simp add: unlinked_destinations_Cons)
    obtain w1 r1 where step: "pdf_to_markdown E (pdf_path_of n) (md_path_of n) w = (w1, r1)"
      by (cases "pdf_to_markdown E (pdf_path_of n) (md_path_of n) w")
    with Cons.prems(1) True have r1: "r1 = None" and run: "convert_loop E names w1 = (w', None)"
      by (auto split: option.splits)
    from pdf_to_markdown_ok_D [OF step [unfolded r1]] obtain tx bytes where
      extr: "extract_text E (files w) (pdf_path_of n) = Inr tx" and
      enc: "utf8_encode (translate_newlines (linesep E) tx) = Inr bytes" and
      "w1 = w\<lparr>files := put E (md_path_of n) (File bytes) (files w)\<rparr>"
      by blast
    with nolink have w1: "w1 = w\<lparr>files := (files w)(md_path_of n \<mapsto> File bytes)\<rparr>"
      by (simp add: put_unlinked)
    show ?thesis
    proof (cases "filename \<in> set names")
      case True
      from Cons.IH [OF run True Cons.prems(3) uniq unl] obtain tx' bytes' where
        a: "extract_text E (files w1) (pdf_path_of filename) = Inr tx'"
        and b: "utf8_encode (translate_newlines (linesep E) tx') = Inr bytes'"
        and c: "files w' (md_path_of filename) = Some (File bytes')"
        by blast
      have "files w1 (pdf_path_of filename) = files w (pdf_path_of filename)"
        unfolding w1 using md_path_of_neq_pdf_path_of [OF Cons.prems(3), of n] by simp
      from extract_text_cong [of "files w1" "pdf_path_of filename" "files w", OF this] a
      have "extract_text E (files w) (pdf_path_of filename) = Inr tx'" by simp
      with b c show ?thesis by blast
    next
      case False
      with Cons.prems(2) have n: "n = filename" by simp
      from False uniq unl
      have "\<forall>m\<in>set names. endswith m ''.pdf'' \<longrightarrow>
          md_path_of filename \<noteq> md_path_of m \<and> md_path_of filename \<notin> links E (md_path_of m)"
        by (auto simp: unlinked_destinations_def)
      from convert_loop_frame [OF run this]
      have "files w' (md_path_of filename) = Some (File bytes)"
        unfolding w1 n by simp
      with extr enc show ?thesis unfolding n by blast
    qed
  qed
qed

subsection \<open>The script\<close>

lemma main_eq_loop: "files w pdf_dir = Some Dir \<Longrightarrow> main E names w = convert_loop E names w"
  by (simp add: main_def os_listdir_def)

lemma main_not_dir:
  "files w pdf_dir \<noteq> Some Dir \<Longrightarrow> \<exists>e. \<forall>names. main E names w = (w, Some e)"
  by (cases "files w pdf_dir") (auto simp: main_def os_listdir_def split: node.splits)

lemma main_skip:
  "\<not> endswith filename ''.pdf'' \<Longrightarrow>
     main E (pre @ filename # post) w = main E (pre @ post) w"
  by (simp add: main_def os_listdir_def convert_loop_skip split: option.splits node.splits)

lemma main_stdout: "stdout (fst (main E names w)) = stdout w"
proof (cases "os_listdir names (files w) pdf_dir")
  case (Inl e)
  then show ?thesis by (simp add: main_def)
next
  case (Inr ns)
  then have "main E names w = convert_loop E ns w" by (simp add: main_def)
  then show ?thesis
    using convert_loop_stdout [of E ns w "fst (convert_loop E ns w)" "snd (convert_loop E ns w)"]
    by simp
qed

lemma main_frame:
  assumes "main E names w = (w', r)"
    and "\<forall>n\<in>set names. endswith n ''.pdf'' \<longrightarrow> q \<noteq> md_path_of n \<and> q \<notin> links E (md_path_of n)"
  shows "files w' q = files w q"
proof (cases "os_listdir names (files w) pdf_dir")
  case (Inl e)
  with assms(1) show ?thesis by (simp add: main_def)
next
  case (Inr ns)
  then have "ns = names" by (simp add: os_listdir_def split: option.splits node.splits)
  with Inr assms(1) have "convert_loop E names w = (w', r)" by (simp add: main_def)
  from convert_loop_frame [OF this assms(2)] show ?thesis .
qed

lemma main_keeps_non_md:
  assumes "main E names w = (w', r)" and "\<not> endswith q ''.md''"
    and "\<forall>n\<in>set names. endswith n ''.pdf'' \<longrightarrow> q \<notin> links E (md_path_of n)"
  shows "files w' q = files w q"
proof (rule main_frame [OF assms(1)])
  from assms(2) have "q \<noteq> md_path_of n" for n
    using md_path_of_endswith_md [of n] by auto
  with assms(3)
  show "\<forall>n\<in>set names. endswith n ''.pdf'' \<longrightarrow> q \<noteq> md_path_of n \<and> q \<notin> links E (md_path_of n)"
    by simp
qed

subsection \<open>A run in closed form\<close>

text \<open>
  Where no destination is linked and a destination that is opened again is steady, the
  loop does what \<open>effects\<close> computes from the file system it starts from: the writes of a
  run never touch what a later conversion reads or what decides whether it may write.
\<close>

lemma written_Nil [simp]: "written [] fs = fs"
  by (simp add: written_def)

lemma written_Cons: "written ((p, x) # ws) fs = written ws (fs(p \<mapsto> x))"
  by (auto simp: written_def fun_eq_iff map_add_def split: option.splits)

lemma written_append: "written (ws @ ws') fs = written ws' (written ws fs)"
  by (induction ws arbitrary: fs) (auto simp: written_Cons)

lemma written_twice: "written ws (written ws fs) = written ws fs"
  by (simp add: written_def fun_eq_iff map_add_def split: option.splits)

lemma written_elsewhere: "p \<notin> fst ` set ws \<Longrightarrow> written ws fs p = fs p"
proof -
  assume "p \<notin> fst ` set ws"
  then have "map_of (rev ws) p = None" by (simp add: map_of_eq_None_iff)
  then show ?thesis by (simp add: written_def map_add_def)
qed

lemma written_directory:
  assumes "\<And>p x. (p, x) \<in> set ws \<Longrightarrow> x \<noteq> Dir \<and> fs p \<noteq> Some Dir"
  shows "(written ws fs p = Some Dir) = (fs p = Some Dir)"
proof (cases "map_of (rev ws) p")
  case None
  then show ?thesis by (simp add: written_def map_add_def)
next
  case (Some x)
  then have "(p, x) \<in> set ws" using map_of_SomeD by fastforce
  with assms have "x \<noteq> Dir" "fs p \<noteq> Some Dir" by blast+
  with Some show ?thesis by (simp add: written_def map_add_def)
qed

lemma agree_on_written:
  assumes w: "\<And>p x. (p, x) \<in> set ws \<Longrightarrow> endswith p ''.md'' \<and> x \<noteq> Dir \<and> fs p \<noteq> Some Dir"
    and s: "\<And>p. p \<in> D \<Longrightarrow> p \<in> fst ` set ws \<Longrightarrow> write_denied E True p = write_denied E False p"
  shows "agree_on D E fs (written ws fs)"
proof -
  have "written ws fs p = fs p" if "\<not> endswith p ''.md''" for p
  proof -
    from that w have "p \<notin> fst ` set ws" by force
    then show ?thesis by (rule written_elsewhere)
  qed
  moreover have "open_w_error E (written ws fs) p = open_w_error E fs p" if "p \<in> D" for p
  proof (cases "p \<in> fst ` set ws")
    case False
    then have "written ws fs p = fs p" by (rule written_elsewhere)
    then show ?thesis by (rule open_w_error_cong)
  next
    case True
    from s [OF that True] have "write_denied E True p = write_denied E False p" .
    moreover have "(written ws fs p = Some Dir) = (fs p = Some Dir)"
      using w by (intro written_directory) blast
    ultimately show ?thesis by (rule open_w_error_steady)
  qed
  ultimately show ?thesis by (simp add: agree_on_def)
qed

lemma attempt_agree:
  assumes "agree_on D E fs fs'" and "endswith filename ''.pdf''" and "md_path_of filename \<in> D"
  shows "attempt E fs' filename = attempt E fs filename"
proof -
  have "\<not> endswith (pdf_path_of filename) ''.md''"
    using pdf_path_of_endswith_pdf [OF assms(2)] endswith_md_not_pdf by blast
  with assms(1) have "fs' (pdf_path_of filename) = fs (pdf_path_of filename)"
    by (simp add: agree_on_def)
  then have x: "extract_text E fs' (pdf_path_of filename) = extract_text E fs (pdf_path_of filename)"
    by (rule extract_text_cong)
  from assms(1,3) have
    "open_w_error E fs' (md_path_of filename) = open_w_error E fs (md_path_of filename)"
    by (simp add: agree_on_def)
  then show ?thesis
    unfolding attempt_def x open_w_by_error by (auto split: sum.splits option.splits)
qed

lemma effects_agree:
  "agree_on D E fs fs' \<Longrightarrow> \<forall>n\<in>set names. endswith n ''.pdf'' \<longrightarrow> md_path_of n \<in> D \<Longrightarrow>
     effects E fs' names = effects E fs names"
  by (induction names) (auto simp: attempt_agree)

lemma pdf_to_markdown_attempt:
  "links E (md_path_of filename) = {} \<Longrightarrow>
   pdf_to_markdown E (pdf_path_of filename) (md_path_of filename) w =
     (w\<lparr>files := written (fst (attempt E (files w) filename)) (files w)\<rparr>,
      snd (attempt E (files w) filename))"
  by (auto simp: pdf_to_markdown_def attempt_def open_w_def put_unlinked written_Cons
      split: sum.splits option.splits node.splits)

lemma attempt_writes:
  "(p, x) \<in> set (fst (attempt E fs filename)) \<Longrightarrow>
     p = md_path_of filename \<and> x \<noteq> Dir \<and> fs p \<noteq> Some Dir"
  by (auto simp: attempt_def open_w_def split: sum.splits option.splits node.splits)

lemma reopen_ok_steady: "steady_destinations E names \<Longrightarrow> reopen_ok E names"
  by (induction names) (auto simp: steady_destinations_def)

lemma reopen_ok_distinct:
  "distinct (map md_path_of (filter (\<lambda>n. endswith n ''.pdf'') names)) \<Longrightarrow> reopen_ok E names"
  by (induction names) (auto split: if_splits)

lemma convert_loop_effects:
  assumes "unlinked_destinations E names" and "reopen_ok E names"
  shows "convert_loop E names w =
     (w\<lparr>files := written (fst (effects E (files w) names)) (files w)\<rparr>,
      snd (effects E (files w) names))"
  using assms
proof (induction names arbitrary: w)
  case Nil
  show ?case by simp
next
  case (Cons n names)
  from Cons.prems have unl: "unlinked_destinations E names" and re: "reopen_ok E names"
    by (simp_all add: unlinked_destinations_Cons)
  note IH = Cons.IH [OF unl re]
  show ?case
  proof (cases "endswith n ''.pdf''")
    case False
    with IH [of w] show ?thesis by simp
  next
    case True
    with Cons.prems(1) have nolink: "links E (md_path_of n) = {}"
      by (simp add: unlinked_destinations_Cons)
    let ?D = "md_path_of ` {m \<in> set names. endswith m ''.pdf''}"
    from True Cons.prems(2) have steady:
      "md_path_of n \<in> ?D \<Longrightarrow>
         write_denied E True (md_path_of n) = write_denied E False (md_path_of n)"
      by auto
    obtain ws r where a: "attempt E (files w) n = (ws, r)"
      by (cases "attempt E (files w) n")
    let ?w1 = "w\<lparr>files := written ws (files w)\<rparr>"
    have step: "pdf_to_markdown E (pdf_path_of n) (md_path_of n) w = (?w1, r)"
      using pdf_to_markdown_attempt [OF nolink, of w] a by simp
    show ?thesis
    proof (cases r)
      case (Some e)
      with True step a show ?thesis by simp
    next
      case None
      have "agree_on ?D E (files w) (written ws (files w))"
      proof (rule agree_on_written)
        fix p x
        assume "(p, x) \<in> set ws"
        with a have "(p, x) \<in> set (fst (attempt E (files w) n))" by simp
        from attempt_writes [OF this] md_path_of_endswith_md [of n]
        show "endswith p ''.md'' \<and> x \<noteq> Dir \<and> files w p \<noteq> Some Dir" by auto
      next
        fix p
        assume d: "p \<in> ?D" and "p \<in> fst ` set ws"
        then obtain x where "(p, x) \<in> set ws" by auto
        with a have "(p, x) \<in> set (fst (attempt E (files w) n))" by simp
        from attempt_writes [OF this] have "p = md_path_of n" by simp
        with d steady show "write_denied E True p = write_denied E False p" by simp
      qed
      moreover have "\<forall>m\<in>set names. endswith m ''.pdf'' \<longrightarrow> md_path_of m \<in> ?D"
        by auto
      ultimately have eff: "effects E (files ?w1) names = effects E (files w) names"
        by (simp add: effects_agree)
      obtain ws' r' where e: "effects E (files w) names = (ws', r')"
        by (cases "effects E (files w) names")
      have "convert_loop E (n # names) w = convert_loop E names ?w1"
        using True step None by simp
      also have "\<dots> = (?w1\<lparr>files := written ws' (files ?w1)\<rparr>, r')"
        using IH [of ?w1] eff e by simp
      also have "\<dots> = (w\<lparr>files := written (ws @ ws') (files w)\<rparr>, r')"
        by (simp add: written_append)
      finally show ?thesis using True a None e by simp
    qed
  qed
qed

lemma effects_writes:
  "(p, x) \<in> set (fst (effects E fs names)) \<Longrightarrow>
     (\<exists>n\<in>set names. endswith n ''.pdf'' \<and> p = md_path_of n) \<and> x \<noteq> Dir \<and> fs p \<noteq> Some Dir"
proof (induction names)
  case Nil
  then show ?case by simp
next
  case (Cons n names)
  show ?case
  proof (cases "endswith n ''.pdf''")
    case False
    with Cons show ?thesis by simp
  next
    case True
    from Cons.prems True
    have "(p, x) \<in> set (fst (attempt E fs n)) \<or> (p, x) \<in> set (fst (effects E fs names))"
      by (auto split: prod.splits option.splits)
    then show ?thesis
    proof
      assume "(p, x) \<in> set (fst (attempt E fs n))"
      from attempt_writes [OF this] True show ?thesis by auto
    next
      assume "(p, x) \<in> set (fst (effects E fs names))"
      from Cons.IH [OF this] show ?thesis by auto
    qed
  qed
qed

text \<open>
  With steady destinations, a second run over the same listing finds every source as it
  was and every destination opening as before, and writes the same bytes again.
\<close>

lemma convert_loop_again:
  assumes "unlinked_destinations E names" and "steady_destinations E names"
    and "convert_loop E names w = (w1, r)"
  shows "convert_loop E names w1 = (w1, r)"
proof -
  let ?ws = "fst (effects E (files w) names)"
  let ?D = "md_path_of ` {m \<in> set names. endswith m ''.pdf''}"
  note closed = convert_loop_effects [OF assms(1) reopen_ok_steady [OF assms(2)]]
  from assms(3) have w1: "w1 = w\<lparr>files := written ?ws (files w)\<rparr>"
    and r: "r = snd (effects E (files w) names)"
    by (simp_all add: closed)
  have "agree_on ?D E (files w) (written ?ws (files w))"
  proof (rule agree_on_written)
    fix p x
    assume "(p, x) \<in> set ?ws"
    from effects_writes [OF this] md_path_of_endswith_md
    show "endswith p ''.md'' \<and> x \<noteq> Dir \<and> files w p \<noteq> Some Dir" by auto
  next
    fix p
    assume "p \<in> ?D"
    with assms(2) show "write_denied E True p = write_denied E False p"
      by (auto simp: steady_destinations_def)
  qed
  then have "agree_on ?D E (files w) (files w1)"
    unfolding w1 by simp
  moreover have "\<forall>m\<in>set names. endswith m ''.pdf'' \<longrightarrow> md_path_of m \<in> ?D"
    by auto
  ultimately have eff: "effects E (files w1) names = effects E (files w) names"
    by (rule effects_agree)
  have "files w1 = written ?ws (files w)" unfolding w1 by simp
  then have "written ?ws (files w1) = files w1" by (simp add: written_twice)
  then show ?thesis
    unfolding closed [of w1] eff r by simp
qed

subsection \<open>Order of enumeration\<close>

lemma attempt_ok:
  "snd (attempt E fs filename) = None \<Longrightarrow>
     \<exists>bytes. fst (attempt E fs filename) = [(md_path_of filename, File bytes)]"
  by (auto simp: attempt_def split: sum.splits)

lemma attempt_ok_iff:
  "(snd (attempt E fs filename) = None) =
     (\<exists>tx bytes. extract_text E fs (pdf_path_of filename) = Inr tx \<and>
        open_w_error E fs (md_path_of filename) = None \<and>
        utf8_encode (translate_newlines (linesep E) tx) = Inr bytes)"
  by (auto simp: attempt_def open_w_by_error split: sum.splits option.splits)

lemma effects_ok_iff:
  "(snd (effects E fs names) = None) =
     (\<forall>n\<in>set names. endswith n ''.pdf'' \<longrightarrow> snd (attempt E fs n) = None)"
  by (induction names) (auto split: prod.splits option.splits)

text \<open>
  A run raises nothing exactly when each \<^verbatim>\<open>.pdf\<close> entry of the listing, taken on its own in
  the file system the run starts from, can be converted.
\<close>

lemma convert_loop_ok_iff:
  "unlinked_destinations E names \<Longrightarrow> reopen_ok E names \<Longrightarrow>
   (snd (convert_loop E names w) = None) =
     (\<forall>n\<in>set names. endswith n ''.pdf'' \<longrightarrow> snd (attempt E (files w) n) = None)"
  by (simp add: convert_loop_effects effects_ok_iff)

lemma effects_ok_writes:
  "snd (effects E fs names) = None \<Longrightarrow>
     fst (effects E fs names) =
       map (\<lambda>n. hd (fst (attempt E fs n))) (filter (\<lambda>n. endswith n ''.pdf'') names)"
proof (induction names)
  case Nil
  show ?case by simp
next
  case (Cons n names)
  show ?case
  proof (cases "endswith n ''.pdf''")
    case False
    with Cons show ?thesis by simp
  next
    case True
    from Cons.prems True have ok: "snd (attempt E fs n) = None"
      and rest: "snd (effects E fs names) = None"
      by (auto split: prod.splits option.splits)
    from attempt_ok [OF ok] obtain bytes where
      b: "fst (attempt E fs n) = [(md_path_of n, File bytes)]" ..
    from True ok b Cons.IH [OF rest] show ?thesis
      by (auto split: prod.splits option.splits)
  qed
qed

lemma effects_ok_paths:
  assumes "snd (effects E fs names) = None"
  shows "map fst (fst (effects E fs names)) =
           map md_path_of (filter (\<lambda>n. endswith n ''.pdf'') names)"
proof -
  have "fst (hd (fst (attempt E fs n))) = md_path_of n"
    if "n \<in> set (filter (\<lambda>n. endswith n ''.pdf'') names)" for n
  proof -
    from that assms have "snd (attempt E fs n) = None"
      by (simp add: effects_ok_iff)
    from attempt_ok [OF this] show ?thesis by auto
  qed
  then have "map (fst \<circ> (\<lambda>n. hd (fst (attempt E fs n)))) (filter (\<lambda>n. endswith n ''.pdf'') names) =
      map md_path_of (filter (\<lambda>n. endswith n ''.pdf'') names)"
    by (intro map_cong refl) simp
  then show ?thesis
    unfolding effects_ok_writes [OF assms] map_map .
qed

lemma written_permuted:
  assumes "mset ws' = mset ws" and "distinct (map fst ws)"
  shows "written ws' fs = written ws fs"
proof -
  from assms(1) have "mset (map fst ws') = mset (map fst ws)" by simp
  from mset_eq_imp_distinct_iff [OF this] assms(2) have d: "distinct (map fst ws')"
    by simp
  from mset_eq_setD [OF assms(1)] have "set (rev ws') = set (rev ws)"
    by simp
  moreover have "distinct (map fst (rev ws'))" "distinct (map fst (rev ws))"
    using d assms(2) by (simp_all add: distinct_map)
  ultimately have "map_of (rev ws') = map_of (rev ws)"
    using map_of_inject_set [of "rev ws'" "rev ws"] by blast
  then show ?thesis by (simp add: written_def)
qed

lemma convert_loop_permuted:
  assumes perm: "mset names2 = mset names1"
    and ok: "snd (convert_loop E names1 w) = None"
    and dist: "distinct (map md_path_of (filter (\<lambda>n. endswith n ''.pdf'') names1))"
    and unl: "unlinked_destinations E names1"
  shows "convert_loop E names2 w = convert_loop E names1 w"
proof -
  let ?fs = "files w"
  let ?pdfs = "filter (\<lambda>n. endswith n ''.pdf'')"
  from mset_eq_setD [OF perm] have sets: "set names2 = set names1" .
  from perm have pdfs: "mset (?pdfs names2) = mset (?pdfs names1)"
    by simp
  then have "mset (map md_path_of (?pdfs names2)) = mset (map md_path_of (?pdfs names1))"
    by (simp only: mset_map)
  from mset_eq_imp_distinct_iff [OF this] dist
  have dist2: "distinct (map md_path_of (?pdfs names2))" by simp
  from sets unl have unl2: "unlinked_destinations E names2"
    by (simp add: unlinked_destinations_def)
  note closed1 = convert_loop_effects [OF unl reopen_ok_distinct [OF dist]]
  note closed2 = convert_loop_effects [OF unl2 reopen_ok_distinct [OF dist2]]
  from ok have ok1: "snd (effects E ?fs names1) = None"
    by (simp add: closed1)
  with sets have ok2: "snd (effects E ?fs names2) = None"
    by (simp add: effects_ok_iff)
  from pdfs have "mset (map (\<lambda>n. hd (fst (attempt E ?fs n))) (?pdfs names2)) =
      mset (map (\<lambda>n. hd (fst (attempt E ?fs n))) (?pdfs names1))"
    by (simp only: mset_map)
  then have "mset (fst (effects E ?fs names2)) = mset (fst (effects E ?fs names1))"
    unfolding effects_ok_writes [OF ok1] effects_ok_writes [OF ok2] .
  moreover have "distinct (map fst (fst (effects E ?fs names1)))"
    unfolding effects_ok_paths [OF ok1] by (rule dist)
  ultimately have "written (fst (effects E ?fs names2)) ?fs = written (fst (effects E ?fs names1)) ?fs"
    by (rule written_permuted)
  then show ?thesis
    unfolding closed1 [of w] closed2 [of w] ok1 ok2
    by simp
qed

lemma convert_loop_again_filtered:
  assumes "convert_loop E names1 w = (w1, r)"
    and "filter (\<lambda>n. endswith n ''.pdf'') names2 = filter (\<lambda>n. endswith n ''.pdf'') names1 \<or>
         r = None \<and>
         mset (filter (\<lambda>n. endswith n ''.pdf'') names2) =
           mset (filter (\<lambda>n. endswith n ''.pdf'') names1) \<and>
         distinct (map md_path_of (filter (\<lambda>n. endswith n ''.pdf'') names1))"
    and "unlinked_destinations E names1" and "steady_destinations E names1"
  shows "convert_loop E names2 w1 = (w1, r)"
proof -
  let ?pdfs = "filter (\<lambda>n. endswith n ''.pdf'')"
  from convert_loop_again [OF assms(3,4,1)]
  have again: "convert_loop E (?pdfs names1) w1 = (w1, r)"
    by (simp only: convert_loop_filter)
  have "set (?pdfs (?pdfs names1)) = set (?pdfs names1)" by simp
  from unlinked_destinations_set [OF this] assms(3)
  have unl: "unlinked_destinations E (?pdfs names1)" by simp
  from assms(2) have "convert_loop E (?pdfs names2) w1 = convert_loop E (?pdfs names1) w1"
  proof
    assume "?pdfs names2 = ?pdfs names1"
    then show ?thesis by simp
  next
    assume b: "r = None \<and> mset (?pdfs names2) = mset (?pdfs names1) \<and>
      distinct (map md_path_of (?pdfs names1))"
    then have perm: "mset (?pdfs names2) = mset (?pdfs names1)" by simp
    from b again have ok: "snd (convert_loop E (?pdfs names1) w1) = None" by simp
    from b have "distinct (map md_path_of (?pdfs (?pdfs names1)))" by simp
    with perm ok show ?thesis using unl by (rule convert_loop_permuted)
  qed
  with again show ?thesis by (simp only: convert_loop_filter)
qed

text \<open>
  A run adds only names ending in \<^verbatim>\<open>.md\<close> to the directory: the next enumeration has the
  same \<^verbatim>\<open>.pdf\<close> entries.
\<close>

lemma pdf_entries_after_run:
  assumes "main E names1 w = (w1, r)"
    and "lists_dir (files w) pdf_dir names1" and "lists_dir (files w1) pdf_dir names2"
    and "unlinked_destinations E names1"
  shows "mset (filter (\<lambda>n. endswith n ''.pdf'') names2) =
         mset (filter (\<lambda>n. endswith n ''.pdf'') names1)"
proof -
  let ?pdfs = "filter (\<lambda>n. endswith n ''.pdf'')"
  have same: "files w1 (os_path_join pdf_dir n) = files w (os_path_join pdf_dir n)"
    if "endswith n ''.pdf''" for n
  proof -
    from that have "endswith (os_path_join pdf_dir n) ''.pdf''"
      by (rule os_path_join_endswith)
    then have "\<not> endswith (os_path_join pdf_dir n) ''.md''"
      using endswith_md_not_pdf by blast
    with assms(1) show ?thesis
      using unlinked_untouched [OF assms(4)] by (rule main_keeps_non_md)
  qed
  from assms(2,3) have "set (?pdfs names2) = set (?pdfs names1)"
    by (auto simp: lists_dir_def same)
  moreover from assms(2,3) have "distinct (?pdfs names2)" "distinct (?pdfs names1)"
    by (simp_all add: lists_dir_def)
  ultimately show ?thesis
    using set_eq_iff_mset_eq_distinct [of "?pdfs names2" "?pdfs names1"] by blast
qed

subsection \<open>The sample environment\<close>

lemma sample_dir: "files (doc_with entries) pdf_dir = Some Dir"
  by (simp add: doc_with_def pdf_dir_def)

lemma sample_extract:
  "files w p = Some (File c) \<Longrightarrow> c \<noteq> [] \<Longrightarrow>
     extract_text sample_env (files w) p = Inr (map unat c)"
  by (simp add: extract_text_def read_file_def sample_env_def sample_parse_def)

lemma sample_extract_empty:
  "files w p = Some (File []) \<Longrightarrow> extract_text sample_env (files w) p = Inl PDFSyntaxError"
  by (simp add: extract_text_def read_file_def sample_env_def sample_parse_def)

lemma sample_write_denied: "write_denied sample_env present p = None"
  by (simp add: sample_env_def)

lemma sample_read_denied: "read_denied sample_env p = None"
  by (simp add: sample_env_def)

lemma sample_linesep: "linesep sample_env = [10]"
  by (simp add: sample_env_def)

lemma sample_links: "links sample_env p = {}"
  by (simp add: sample_env_def)

lemma sample_unlinked: "unlinked_destinations sample_env names"
  by (simp add: unlinked_destinations_def sample_links)

lemma sample_steady: "steady_destinations sample_env names"
  by (simp add: steady_destinations_def sample_write_denied)

lemma sample_pdf_to_markdown:
  assumes "extract_text sample_env (files w) pdf_path = Inr tx"
    and "utf8_encode tx = Inr bytes"
    and "files w md_path \<noteq> Some Dir"
  shows "pdf_to_markdown sample_env pdf_path md_path w =
           (w\<lparr>files := (files w)(md_path \<mapsto> File bytes)\<rparr>, None)"
proof -
  from assms(2) have "utf8_encode (translate_newlines (linesep sample_env) tx) = Inr bytes"
    by (simp add: sample_linesep)
  from pdf_to_markdown_success [OF assms(1) this assms(3) sample_write_denied]
  show ?thesis by (simp add: put_unlinked sample_links)
qed

lemma doc_with_lookup: "files (doc_with entries) (''doc/'' @ n) = map_of entries n"
  by (induction entries) (auto simp: doc_with_def)

lemma lists_dir_doc_with:
  assumes "distinct (map fst entries)" and "\<forall>n\<in>set (map fst entries). entry_name n"
    and "mset names = mset (map fst entries)"
  shows "lists_dir (files (doc_with entries)) pdf_dir names"
proof -
  from mset_eq_imp_distinct_iff [OF assms(3)] assms(1) have d: "distinct names" by simp
  from mset_eq_setD [OF assms(3)] have s: "set names = fst ` set entries" by simp
  have "(n \<in> set names) =
      (entry_name n \<and> files (doc_with entries) (os_path_join pdf_dir n) \<noteq> None)" for n
  proof (cases "entry_name n")
    case False
    with assms(2) s show ?thesis by auto
  next
    case True
    then have "os_path_join pdf_dir n = ''doc/'' @ n"
      by (simp add: entry_name_def os_path_join_doc)
    then have "files (doc_with entries) (os_path_join pdf_dir n) = map_of entries n"
      by (simp only: doc_with_lookup)
    with True s show ?thesis by (simp add: map_of_eq_None_iff)
  qed
  with d show ?thesis by (simp add: lists_dir_def)
qed

lemmas run_eval = pdf_to_markdown_def extract_text_def read_file_def open_w_def put_def
  translate_newlines_def main_def os_listdir_def pdf_dir_def sample_env_def crlf_env_def
  umask_env_def linked_env_def sample_parse_def doc_with_def utf8_char_def byte_of_def Let_def

lemma differ_at:
  "files (fst a) p = Some x \<Longrightarrow> files (fst b) p = y \<Longrightarrow> y \<noteq> Some x \<Longrightarrow> b \<noteq> a"
  by auto

section \<open>The claims\<close>

subsection \<open>C1: every PDF of the directory gets its text file\<close>

text \<open>
  Claim C1: for every file \<open>X.pdf\<close> in \<^verbatim>\<open>doc\<close> before the run, a file \<open>X.md\<close> exists in
  \<^verbatim>\<open>doc\<close> after it, holding the text extracted from \<open>X.pdf\<close> (non-empty if there is
  text to extract).

  This holds with provisos. When the run raises no error, \<open>X\<close> has a character other
  than the dot, no other \<^verbatim>\<open>.pdf\<close> entry of the listing has the destination \<open>doc/X.md\<close>,
  and no destination path names the same file as another path (no hard or symbolic
  links), then \<open>doc/X.md\<close> is a file whose bytes are the UTF-8 encoding of the text that
  the parser extracts from \<open>X.pdf\<close>, with each line feed written as \<^verbatim>\<open>os.linesep\<close>. Where
  \<^verbatim>\<open>os.linesep\<close> is the line feed, or the text has no line feed, the bytes decode to the
  text itself. They are not empty when the text is not (and \<^verbatim>\<open>os.linesep\<close> is not). (A run
  raises no error exactly when each \<^verbatim>\<open>.pdf\<close> entry can be converted on its own:
  \<open>convert_loop_ok_iff\<close>.)
\<close>

theorem pdf_file_converted:
  assumes "main E names w = (w', None)"
    and "lists_dir (files w) pdf_dir names"
    and "files w (''doc/'' @ X @ ''.pdf'') = Some (File content)"
    and "CHR ''/'' \<notin> set X" and "\<exists>c\<in>set X. c \<noteq> CHR ''.''"
    and "\<forall>m\<in>set names. endswith m ''.pdf'' \<longrightarrow> md_path_of m = ''doc/'' @ X @ ''.md'' \<longrightarrow>
           m = X @ ''.pdf''"
    and "unlinked_destinations E names"
  shows "\<exists>text bytes. pdf_parse E content = Inr text \<and>
           utf8_encode (translate_newlines (linesep E) text) = Inr bytes \<and>
           files w' (''doc/'' @ X @ ''.md'') = Some (File bytes) \<and>
           utf8_decode bytes = Some (translate_newlines (linesep E) text) \<and>
           (linesep E = [10] \<or> 10 \<notin> set text \<longrightarrow> utf8_decode bytes = Some text) \<and>
           (text \<noteq> [] \<and> linesep E \<noteq> [] \<longrightarrow> bytes \<noteq> [])"
proof -
  let ?n = "X @ ''.pdf''"
  have src: "pdf_path_of ?n = ''doc/'' @ X @ ''.pdf''"
    using assms(4) by (simp add: pdf_path_of_doc)
  have dst: "md_path_of ?n = ''doc/'' @ X @ ''.md''"
    using assms(4,5) by (rule md_path_of_stem)
  have "os_path_join pdf_dir ?n = ''doc/'' @ X @ ''.pdf''"
    using src by (simp add: pdf_path_of_def)
  with assms(2,3) entry_name_dot_pdf [OF assms(4)] have listed: "?n \<in> set names"
    by (simp add: lists_dir_def)
  have "files w pdf_dir = Some Dir"
  proof (rule ccontr)
    assume "files w pdf_dir \<noteq> Some Dir"
    from main_not_dir [OF this] assms(1) show False by (metis option.distinct(1) prod.inject)
  qed
  with assms(1) have run: "convert_loop E names w = (w', None)"
    by (simp add: main_eq_loop)
  have "\<forall>m\<in>set names. endswith m ''.pdf'' \<longrightarrow> md_path_of m = md_path_of ?n \<longrightarrow> m = ?n"
    unfolding dst by (rule assms(6))
  from convert_loop_converted [OF run listed _ this assms(7)] obtain tx bytes where
    extr: "extract_text E (files w) (pdf_path_of ?n) = Inr tx" and
    enc: "utf8_encode (translate_newlines (linesep E) tx) = Inr bytes" and
    out: "files w' (md_path_of ?n) = Some (File bytes)"
    by auto
  from extr assms(3) have parse: "pdf_parse E content = Inr tx"
    unfolding src by (auto simp: extract_text_def read_file_def split: option.splits)
  have dec: "utf8_decode bytes = Some (translate_newlines (linesep E) tx)"
    using enc by (rule utf8_roundtrip)
  have verb: "linesep E = [10] \<or> 10 \<notin> set tx \<longrightarrow> utf8_decode bytes = Some tx"
    using dec translate_newlines_verbatim [of "linesep E" tx] by auto
  have ne: "tx \<noteq> [] \<and> linesep E \<noteq> [] \<longrightarrow> bytes \<noteq> []"
    using utf8_encode_nonempty [OF enc] translate_newlines_nonempty [of tx "linesep E"] by blast
  from parse enc out dec verb ne show ?thesis
    unfolding dst by blast
qed

theorem pdf_file_converted_witness:
  "main sample_env [''notes.txt'', ''a.pdf'']
       (doc_with [(''a.pdf'', File [72, 105]), (''notes.txt'', File [120])]) =
     (doc_with [(''a.md'', File [72, 105]), (''a.pdf'', File [72, 105]), (''notes.txt'', File [120])], None) \<and>
   lists_dir (files (doc_with [(''a.pdf'', File [72, 105]), (''notes.txt'', File [120])])) pdf_dir
     [''notes.txt'', ''a.pdf''] \<and>
   files (doc_with [(''a.pdf'', File [72, 105]), (''notes.txt'', File [120])]) (''doc/'' @ ''a'' @ ''.pdf'') =
     Some (File [72, 105]) \<and>
   CHR ''/'' \<notin> set ''a'' \<and> (\<exists>c\<in>set ''a''. c \<noteq> CHR ''.'') \<and>
   filter (\<lambda>m. endswith m ''.pdf'' \<and> md_path_of m = ''doc/'' @ ''a'' @ ''.md'') [''notes.txt'', ''a.pdf''] =
     [''a'' @ ''.pdf''] \<and>
   unlinked_destinations sample_env [''notes.txt'', ''a.pdf''] \<and>
   pdf_parse sample_env [72, 105] = Inr [72, 105] \<and>
   linesep sample_env = [10] \<and>
   files (doc_with [(''a.md'', File [72, 105]), (''a.pdf'', File [72, 105]), (''notes.txt'', File [120])])
     (''doc/'' @ ''a'' @ ''.md'') = Some (File [72, 105])"
proof -
  let ?w = "doc_with [(''a.pdf'', File [72, 105]), (''notes.txt'', File [120])]"
  let ?w' = "doc_with [(''a.md'', File [72, 105]), (''a.pdf'', File [72, 105]), (''notes.txt'', File [120])]"
  have n: "endswith ''a.pdf'' ''.pdf''" "\<not> endswith ''notes.txt'' ''.pdf''"
    "pdf_path_of ''a.pdf'' = ''doc/a.pdf''" "md_path_of ''a.pdf'' = ''doc/a.md''"
    "entry_name ''a.pdf''" "entry_name ''notes.txt''"
    by code_simp+
  have h1: "main sample_env [''notes.txt'', ''a.pdf''] ?w = (?w', None)"
    by (auto simp: n run_eval fun_eq_iff)
  have h2: "lists_dir (files ?w) pdf_dir [''notes.txt'', ''a.pdf'']"
    by (rule lists_dir_doc_with) (simp_all add: n)
  have h3: "files ?w (''doc/'' @ ''a'' @ ''.pdf'') = Some (File [72, 105])"
    by (simp add: doc_with_def)
  have h4: "CHR ''/'' \<notin> set ''a''" and h5: "\<exists>c\<in>set ''a''. c \<noteq> CHR ''.''"
    by simp_all
  have f: "filter (\<lambda>m. endswith m ''.pdf'' \<and> md_path_of m = ''doc/'' @ ''a'' @ ''.md'')
      [''notes.txt'', ''a.pdf''] = [''a'' @ ''.pdf'']"
    by (simp add: n)
  have h6: "\<forall>m\<in>set [''notes.txt'', ''a.pdf'']. endswith m ''.pdf'' \<longrightarrow>
      md_path_of m = ''doc/'' @ ''a'' @ ''.md'' \<longrightarrow> m = ''a'' @ ''.pdf''"
    by (simp add: n)
  have h7: "unlinked_destinations sample_env [''notes.txt'', ''a.pdf'']"
    by (rule sample_unlinked)
  have p: "pdf_parse sample_env [72, 105] = Inr [72, 105]"
    by (simp add: sample_env_def sample_parse_def)
  have e: "utf8_encode [72, 105] = Inr [72, 105]" by code_simp
  from pdf_file_converted [OF h1 h2 h3 h4 h5 h6 h7] obtain tx bytes where
    "pdf_parse sample_env [72, 105] = Inr tx" and
    "utf8_encode (translate_newlines (linesep sample_env) tx) = Inr bytes" and
    out: "files ?w' (''doc/'' @ ''a'' @ ''.md'') = Some (File bytes)"
    by blast
  with p e have "bytes = [72, 105]" by (simp add: sample_linesep)
  with out have r: "files ?w' (''doc/'' @ ''a'' @ ''.md'') = Some (File [72, 105])" by simp
  from h1 h2 h3 h4 h5 f h7 p sample_linesep r show ?thesis by (intro conjI)
qed

text \<open>
  Each proviso on the listing is needed. A file named \<^verbatim>\<open>..pdf\<close> (\<open>X\<close> is one dot) is
  converted to \<^verbatim>\<open>doc/..pdf.md\<close>, and \<^verbatim>\<open>doc/..md\<close> does not exist. With a malformed \<^verbatim>\<open>bad.pdf\<close>
  listed first, the run stops before \<^verbatim>\<open>a.pdf\<close> and there is no \<^verbatim>\<open>doc/a.md\<close>. With \<^verbatim>\<open>.pdf.pdf\<close>
  (\<open>X\<close> is \<^verbatim>\<open>.pdf\<close>) listed before \<^verbatim>\<open>.pdf\<close>, both are written to \<^verbatim>\<open>doc/.pdf.md\<close>, which ends
  up with the text of \<^verbatim>\<open>.pdf\<close>. So is the proviso on links: where \<^verbatim>\<open>doc/a.md\<close> and \<^verbatim>\<open>doc/b.md\<close>
  are two names of one file, a run without error over \<^verbatim>\<open>a.pdf\<close> and then \<^verbatim>\<open>b.pdf\<close> leaves the
  text of \<^verbatim>\<open>b.pdf\<close> in \<^verbatim>\<open>doc/a.md\<close>.
\<close>

theorem pdf_file_without_its_md:
  "lists_dir (files (doc_with [(''..pdf'', File [72])])) pdf_dir [''..pdf''] \<and>
   files (doc_with [(''..pdf'', File [72])]) (''doc/'' @ ''.'' @ ''.pdf'') = Some (File [72]) \<and>
   main sample_env [''..pdf''] (doc_with [(''..pdf'', File [72])]) =
     (doc_with [(''..pdf.md'', File [72]), (''..pdf'', File [72])], None) \<and>
   files (doc_with [(''..pdf.md'', File [72]), (''..pdf'', File [72])]) (''doc/'' @ ''.'' @ ''.md'') = None \<and>
   lists_dir (files (doc_with [(''a.pdf'', File [65]), (''bad.pdf'', File [])])) pdf_dir
     [''bad.pdf'', ''a.pdf''] \<and>
   files (doc_with [(''a.pdf'', File [65]), (''bad.pdf'', File [])]) (''doc/'' @ ''a'' @ ''.pdf'') =
     Some (File [65]) \<and>
   main sample_env [''bad.pdf'', ''a.pdf''] (doc_with [(''a.pdf'', File [65]), (''bad.pdf'', File [])]) =
     (doc_with [(''a.pdf'', File [65]), (''bad.pdf'', File [])], Some PDFSyntaxError) \<and>
   files (doc_with [(''a.pdf'', File [65]), (''bad.pdf'', File [])]) (''doc/'' @ ''a'' @ ''.md'') = None \<and>
   lists_dir (files (doc_with [(''.pdf'', File [65]), (''.pdf.pdf'', File [66])])) pdf_dir
     [''.pdf.pdf'', ''.pdf''] \<and>
   files (doc_with [(''.pdf'', File [65]), (''.pdf.pdf'', File [66])]) (''doc/'' @ ''.pdf'' @ ''.pdf'') =
     Some (File [66]) \<and>
   pdf_parse sample_env [66] = Inr [66] \<and> utf8_encode [66] = Inr [66] \<and>
   main sample_env [''.pdf.pdf'', ''.pdf''] (doc_with [(''.pdf'', File [65]), (''.pdf.pdf'', File [66])]) =
     (doc_with [(''.pdf.md'', File [65]), (''.pdf'', File [65]), (''.pdf.pdf'', File [66])], None) \<and>
   files (doc_with [(''.pdf.md'', File [65]), (''.pdf'', File [65]), (''.pdf.pdf'', File [66])])
     (''doc/'' @ ''.pdf'' @ ''.md'') = Some (File [65]) \<and>
   lists_dir (files (doc_with [(''a.md'', File [120]), (''a.pdf'', File [65]),
                               (''b.md'', File [120]), (''b.pdf'', File [66])])) pdf_dir
     [''a.md'', ''a.pdf'', ''b.md'', ''b.pdf''] \<and>
   links (linked_env ''doc/a.md'' ''doc/b.md'') ''doc/b.md'' = {''doc/a.md''} \<and>
   files (doc_with [(''a.md'', File [120]), (''a.pdf'', File [65]),
                    (''b.md'', File [120]), (''b.pdf'', File [66])]) (''doc/'' @ ''a'' @ ''.pdf'') =
     Some (File [65]) \<and>
   pdf_parse (linked_env ''doc/a.md'' ''doc/b.md'') [65] = Inr [65] \<and> utf8_encode [65] = Inr [65] \<and>
   snd (main (linked_env ''doc/a.md'' ''doc/b.md'') [''a.md'', ''a.pdf'', ''b.md'', ''b.pdf'']
          (doc_with [(''a.md'', File [120]), (''a.pdf'', File [65]),
                     (''b.md'', File [120]), (''b.pdf'', File [66])])) = None \<and>
   files (fst (main (linked_env ''doc/a.md'' ''doc/b.md'') [''a.md'', ''a.pdf'', ''b.md'', ''b.pdf'']
                 (doc_with [(''a.md'', File [120]), (''a.pdf'', File [65]),
                            (''b.md'', File [120]), (''b.pdf'', File [66])])))
     (''doc/'' @ ''a'' @ ''.md'') = Some (File [66])"
proof -
  let ?L = "linked_env ''doc/a.md'' ''doc/b.md''"
  let ?u = "doc_with [(''a.md'', File [120]), (''a.pdf'', File [65]),
                      (''b.md'', File [120]), (''b.pdf'', File [66])]"
  have n: "endswith ''..pdf'' ''.pdf''"
    "pdf_path_of ''..pdf'' = ''doc/..pdf''" "md_path_of ''..pdf'' = ''doc/..pdf.md''"
    "endswith ''a.pdf'' ''.pdf''" "endswith ''bad.pdf'' ''.pdf''"
    "pdf_path_of ''a.pdf'' = ''doc/a.pdf''" "md_path_of ''a.pdf'' = ''doc/a.md''"
    "pdf_path_of ''bad.pdf'' = ''doc/bad.pdf''" "md_path_of ''bad.pdf'' = ''doc/bad.md''"
    "endswith ''.pdf'' ''.pdf''" "endswith ''.pdf.pdf'' ''.pdf''"
    "pdf_path_of ''.pdf'' = ''doc/.pdf''" "md_path_of ''.pdf'' = ''doc/.pdf.md''"
    "pdf_path_of ''.pdf.pdf'' = ''doc/.pdf.pdf''" "md_path_of ''.pdf.pdf'' = ''doc/.pdf.md''"
    "endswith ''b.pdf'' ''.pdf''" "\<not> endswith ''a.md'' ''.pdf''" "\<not> endswith ''b.md'' ''.pdf''"
    "pdf_path_of ''b.pdf'' = ''doc/b.pdf''" "md_path_of ''b.pdf'' = ''doc/b.md''"
    by code_simp+
  have en: "entry_name ''..pdf''" "entry_name ''a.pdf''" "entry_name ''bad.pdf''"
    "entry_name ''.pdf''" "entry_name ''.pdf.pdf''"
    "entry_name ''a.md''" "entry_name ''b.md''" "entry_name ''b.pdf''"
    by code_simp+
  have a1: "lists_dir (files (doc_with [(''..pdf'', File [72])])) pdf_dir [''..pdf'']"
    by (rule lists_dir_doc_with) (simp_all add: en)
  have a2: "files (doc_with [(''..pdf'', File [72])]) (''doc/'' @ ''.'' @ ''.pdf'') = Some (File [72])"
    by (simp add: doc_with_def)
  have a3: "main sample_env [''..pdf''] (doc_with [(''..pdf'', File [72])]) =
      (doc_with [(''..pdf.md'', File [72]), (''..pdf'', File [72])], None)"
    by (auto simp: n run_eval fun_eq_iff)
  have a4: "files (doc_with [(''..pdf.md'', File [72]), (''..pdf'', File [72])])
      (''doc/'' @ ''.'' @ ''.md'') = None"
    by (simp add: doc_with_def)
  have b1: "lists_dir (files (doc_with [(''a.pdf'', File [65]), (''bad.pdf'', File [])])) pdf_dir
      [''bad.pdf'', ''a.pdf'']"
    by (rule lists_dir_doc_with) (simp_all add: en)
  have b2: "files (doc_with [(''a.pdf'', File [65]), (''bad.pdf'', File [])])
      (''doc/'' @ ''a'' @ ''.pdf'') = Some (File [65])"
    by (simp add: doc_with_def)
  have b3: "main sample_env [''bad.pdf'', ''a.pdf'']
      (doc_with [(''a.pdf'', File [65]), (''bad.pdf'', File [])]) =
      (doc_with [(''a.pdf'', File [65]), (''bad.pdf'', File [])], Some PDFSyntaxError)"
    by (auto simp: n run_eval fun_eq_iff)
  have b4: "files (doc_with [(''a.pdf'', File [65]), (''bad.pdf'', File [])])
      (''doc/'' @ ''a'' @ ''.md'') = None"
    by (simp add: doc_with_def)
  have c1: "lists_dir (files (doc_with [(''.pdf'', File [65]), (''.pdf.pdf'', File [66])])) pdf_dir
      [''.pdf.pdf'', ''.pdf'']"
    by (rule lists_dir_doc_with) (simp_all add: en)
  have c2: "files (doc_with [(''.pdf'', File [65]), (''.pdf.pdf'', File [66])])
      (''doc/'' @ ''.pdf'' @ ''.pdf'') = Some (File [66])"
    by (simp add: doc_with_def)
  have c3: "pdf_parse sample_env [66] = Inr [66]"
    by (simp add: sample_env_def sample_parse_def)
  have c4: "utf8_encode [66] = Inr [66]" by code_simp
  have c5: "main sample_env [''.pdf.pdf'', ''.pdf'']
      (doc_with [(''.pdf'', File [65]), (''.pdf.pdf'', File [66])]) =
      (doc_with [(''.pdf.md'', File [65]), (''.pdf'', File [65]), (''.pdf.pdf'', File [66])], None)"
    by (auto simp: n run_eval fun_eq_iff)
  have c6: "files (doc_with [(''.pdf.md'', File [65]), (''.pdf'', File [65]), (''.pdf.pdf'', File [66])])
      (''doc/'' @ ''.pdf'' @ ''.md'') = Some (File [65])"
    by (simp add: doc_with_def)
  have d1: "lists_dir (files ?u) pdf_dir [''a.md'', ''a.pdf'', ''b.md'', ''b.pdf'']"
    by (rule lists_dir_doc_with) (simp_all add: en)
  have d2: "links ?L ''doc/b.md'' = {''doc/a.md''}"
    by (simp add: linked_env_def sample_env_def)
  have d3: "files ?u (''doc/'' @ ''a'' @ ''.pdf'') = Some (File [65])"
    by (simp add: doc_with_def)
  have d4: "pdf_parse ?L [65] = Inr [65]"
    by (simp add: linked_env_def sample_env_def sample_parse_def)
  have d5: "utf8_encode [65] = Inr [65]" by code_simp
  have d6: "snd (main ?L [''a.md'', ''a.pdf'', ''b.md'', ''b.pdf''] ?u) = None"
    by (simp add: n run_eval)
  have d7: "files (fst (main ?L [''a.md'', ''a.pdf'', ''b.md'', ''b.pdf''] ?u))
      (''doc/'' @ ''a'' @ ''.md'') = Some (File [66])"
    by (simp add: n run_eval)
  from a1 a2 a3 a4 b1 b2 b3 b4 c1 c2 c3 c4 c5 c6 d1 d2 d3 d4 d5 d6 d7
  show ?thesis by (intro conjI)
qed

subsection \<open>C2: what is not a PDF is skipped\<close>

text \<open>
  Claim C2: every entry of \<^verbatim>\<open>doc\<close> that is not a PDF file, every subdirectory included
  whatever its name, is skipped silently: no error, no output, no file for it.

  The filter is \<^verbatim>\<open>filename.endswith(".pdf")\<close> and nothing else, so the claim holds for the
  entries whose name does not end in \<^verbatim>\<open>.pdf\<close>, files and subdirectories alike: the run
  over a listing with such an entry is the run over the listing without it, and the
  converter never prints.
\<close>

theorem non_pdf_entry_skipped:
  assumes "\<not> endswith filename ''.pdf''"
  shows "main E (pre @ filename # post) w = main E (pre @ post) w \<and>
         stdout (fst (main E (pre @ filename # post) w)) = stdout w"
proof
  from assms show "main E (pre @ filename # post) w = main E (pre @ post) w"
    by (rule main_skip)
  show "stdout (fst (main E (pre @ filename # post) w)) = stdout w"
    by (rule main_stdout)
qed

theorem non_pdf_entry_skipped_witness:
  "\<not> endswith ''archive'' ''.pdf'' \<and>
   files (doc_with [(''archive'', Dir)]) (pdf_path_of ''archive'') = Some Dir \<and>
   main sample_env [''archive''] (doc_with [(''archive'', Dir)]) = (doc_with [(''archive'', Dir)], None) \<and>
   stdout (fst (main sample_env [''archive''] (doc_with [(''archive'', Dir)]))) = []"
proof -
  let ?w = "doc_with [(''archive'', Dir)]"
  have a: "\<not> endswith ''archive'' ''.pdf''" by code_simp
  have p: "pdf_path_of ''archive'' = ''doc/archive''" by code_simp
  have d: "files ?w (pdf_path_of ''archive'') = Some Dir"
    unfolding p by (simp add: doc_with_def)
  have e: "main sample_env [] ?w = (?w, None)"
    by (simp add: main_eq_loop sample_dir)
  have o: "stdout ?w = []" by (simp add: doc_with_def)
  note t = non_pdf_entry_skipped [OF a, where E = sample_env and pre = "[]" and post = "[]"
      and w = ?w, unfolded append_Nil e o]
  from t have r: "main sample_env [''archive''] ?w = (?w, None)" by (rule conjunct1)
  from t have s: "stdout (fst (main sample_env [''archive''] ?w)) = []" by (rule conjunct2)
  from a d r s show ?thesis by (intro conjI)
qed

text \<open>
  A subdirectory named \<^verbatim>\<open>scans.pdf\<close> is matched like any other name ending in \<^verbatim>\<open>.pdf\<close>;
  the extraction opens it and raises (\<open>convert_loop_directory_raises\<close>: so it does in
  every environment).
\<close>

theorem pdf_named_subdirectory_not_skipped:
  "endswith ''scans.pdf'' ''.pdf'' \<and>
   files (doc_with [(''scans.pdf'', Dir)]) (pdf_path_of ''scans.pdf'') = Some Dir \<and>
   main sample_env [''scans.pdf''] (doc_with [(''scans.pdf'', Dir)]) =
     (doc_with [(''scans.pdf'', Dir)], Some IsADirectoryError)"
proof -
  let ?w = "doc_with [(''scans.pdf'', Dir)]"
  have a: "endswith ''scans.pdf'' ''.pdf''" by code_simp
  have p: "pdf_path_of ''scans.pdf'' = ''doc/scans.pdf''" by code_simp
  have d: "files ?w (pdf_path_of ''scans.pdf'') = Some Dir"
    unfolding p by (simp add: doc_with_def)
  from pdf_to_markdown_extract_fails [OF extract_text_directory [OF d sample_read_denied]]
  have "pdf_to_markdown sample_env (pdf_path_of ''scans.pdf'') (md_path_of ''scans.pdf'') ?w =
          (?w, Some IsADirectoryError)" .
  from convert_loop_step_raises [OF a this]
  have "main sample_env [''scans.pdf''] ?w = (?w, Some IsADirectoryError)"
    unfolding main_eq_loop [OF sample_dir] .
  with a d show ?thesis by (intro conjI)
qed

subsection \<open>C3: the suffix filter is case-sensitive\<close>

text \<open>
  Claim C3: an entry whose name ends in \<^verbatim>\<open>.PDF\<close> does not end in \<^verbatim>\<open>.pdf\<close>, is not matched and
  is skipped: the run is the run over the listing without it, and nothing is printed.
\<close>

theorem uppercase_extension_not_matched:
  assumes "endswith filename ''.PDF''"
  shows "\<not> endswith filename ''.pdf'' \<and>
         main E (pre @ filename # post) w = main E (pre @ post) w \<and>
         stdout (fst (main E (pre @ filename # post) w)) = stdout w"
proof (intro conjI)
  from assms show unmatched: "\<not> endswith filename ''.pdf''"
    by (rule endswith_PDF_not_pdf)
  then show "main E (pre @ filename # post) w = main E (pre @ post) w"
    by (rule main_skip)
  show "stdout (fst (main E (pre @ filename # post) w)) = stdout w"
    by (rule main_stdout)
qed

theorem uppercase_extension_not_matched_witness:
  "endswith ''report.PDF'' ''.PDF'' \<and> \<not> endswith ''report.PDF'' ''.pdf'' \<and>
   main sample_env [''report.PDF''] (doc_with [(''report.PDF'', File [37, 80, 68, 70])]) =
     (doc_with [(''report.PDF'', File [37, 80, 68, 70])], None)"
proof -
  let ?w = "doc_with [(''report.PDF'', File [37, 80, 68, 70])]"
  have a: "endswith ''report.PDF'' ''.PDF''" by code_simp
  have e: "main sample_env [] ?w = (?w, None)"
    by (simp add: main_eq_loop sample_dir)
  note t = uppercase_extension_not_matched [OF a, where E = sample_env and pre = "[]"
      and post = "[]" and w = ?w, unfolded append_Nil e]
  from t have n: "\<not> endswith ''report.PDF'' ''.pdf''" by (rule conjunct1)
  from t have r: "main sample_env [''report.PDF''] ?w = (?w, None)"
    by (rule conjunct2 [THEN conjunct1])
  from a n r show ?thesis by (intro conjI)
qed

subsection \<open>C4: running the converter twice\<close>

text \<open>
  Claim C4: with the source PDFs fixed and extraction deterministic, running the converter
  twice in a row leaves the same files with the same contents as running it once.

  \<open>names1\<close> is what \<^verbatim>\<open>os.listdir\<close> returns in the first run, \<open>names2\<close> in the second, which
  starts from the world \<open>w1\<close> that the first run left. Two provisos are about the host:
  no destination path names the same file as another path, and the operating system
  lets a destination be opened for writing, or refuses it, alike whether or not the file is
  there already. Then the second run ends in \<open>w1\<close> again, with the outcome \<open>r\<close> of the
  first, when it meets the \<^verbatim>\<open>.pdf\<close> entries in the same order as the first run; and,
  whatever the order, when the first run raised nothing and no two \<^verbatim>\<open>.pdf\<close> entries share
  a destination. (The \<^verbatim>\<open>.pdf\<close> entries themselves are the same in both enumerations,
  since a run adds only names ending in \<^verbatim>\<open>.md\<close>: \<open>pdf_entries_after_run\<close>.)
\<close>

theorem second_run_changes_nothing:
  assumes "main E names1 w = (w1, r)"
    and "filter (\<lambda>n. endswith n ''.pdf'') names2 = filter (\<lambda>n. endswith n ''.pdf'') names1 \<or>
         r = None \<and>
         mset (filter (\<lambda>n. endswith n ''.pdf'') names2) =
           mset (filter (\<lambda>n. endswith n ''.pdf'') names1) \<and>
         distinct (map md_path_of (filter (\<lambda>n. endswith n ''.pdf'') names1))"
    and "unlinked_destinations E names1"
    and "steady_destinations E names1"
  shows "main E names2 w1 = (w1, r)"
proof (cases "files w pdf_dir = Some Dir")
  case False
  from main_not_dir [OF this] obtain e where e: "\<And>names. main E names w = (w, Some e)"
    by blast
  with assms(1) have "w1 = w" "r = Some e" by simp_all
  with e show ?thesis by simp
next
  case True
  with assms(1) have run: "convert_loop E names1 w = (w1, r)"
    by (simp add: main_eq_loop)
  from convert_loop_keeps_non_md [OF run pdf_dir_not_md unlinked_untouched [OF assms(3)]] True
  have "files w1 pdf_dir = Some Dir" by simp
  then have "main E names2 w1 = convert_loop E names2 w1"
    by (rule main_eq_loop)
  with convert_loop_again_filtered [OF run assms(2-4)] show ?thesis by simp
qed

theorem second_run_changes_nothing_witness:
  "main sample_env [''a.pdf'', ''b.pdf''] (doc_with [(''a.pdf'', File [65]), (''b.pdf'', File [66])]) =
     (doc_with [(''b.md'', File [66]), (''a.md'', File [65]), (''a.pdf'', File [65]), (''b.pdf'', File [66])], None) \<and>
   mset (filter (\<lambda>n. endswith n ''.pdf'') [''b.md'', ''b.pdf'', ''a.md'', ''a.pdf'']) =
     mset (filter (\<lambda>n. endswith n ''.pdf'') [''a.pdf'', ''b.pdf'']) \<and>
   distinct (map md_path_of (filter (\<lambda>n. endswith n ''.pdf'') [''a.pdf'', ''b.pdf''])) \<and>
   unlinked_destinations sample_env [''a.pdf'', ''b.pdf''] \<and>
   steady_destinations sample_env [''a.pdf'', ''b.pdf''] \<and>
   main sample_env [''b.md'', ''b.pdf'', ''a.md'', ''a.pdf'']
       (doc_with [(''b.md'', File [66]), (''a.md'', File [65]), (''a.pdf'', File [65]), (''b.pdf'', File [66])]) =
     (doc_with [(''b.md'', File [66]), (''a.md'', File [65]), (''a.pdf'', File [65]), (''b.pdf'', File [66])], None)"
proof -
  let ?w = "doc_with [(''a.pdf'', File [65]), (''b.pdf'', File [66])]"
  let ?w1 = "doc_with [(''b.md'', File [66]), (''a.md'', File [65]), (''a.pdf'', File [65]), (''b.pdf'', File [66])]"
  have n: "endswith ''a.pdf'' ''.pdf''" "endswith ''b.pdf'' ''.pdf''"
    "\<not> endswith ''a.md'' ''.pdf''" "\<not> endswith ''b.md'' ''.pdf''"
    "pdf_path_of ''a.pdf'' = ''doc/a.pdf''" "md_path_of ''a.pdf'' = ''doc/a.md''"
    "pdf_path_of ''b.pdf'' = ''doc/b.pdf''" "md_path_of ''b.pdf'' = ''doc/b.md''"
    by code_simp+
  have run: "main sample_env [''a.pdf'', ''b.pdf''] ?w = (?w1, None)"
    by (auto simp: n run_eval fun_eq_iff)
  have same: "mset (filter (\<lambda>n. endswith n ''.pdf'') [''b.md'', ''b.pdf'', ''a.md'', ''a.pdf'']) =
      mset (filter (\<lambda>n. endswith n ''.pdf'') [''a.pdf'', ''b.pdf''])"
    by (simp add: n)
  have dist: "distinct (map md_path_of (filter (\<lambda>n. endswith n ''.pdf'') [''a.pdf'', ''b.pdf'']))"
    by (simp add: n)
  have unl: "unlinked_destinations sample_env [''a.pdf'', ''b.pdf'']"
    by (rule sample_unlinked)
  have std: "steady_destinations sample_env [''a.pdf'', ''b.pdf'']"
    by (rule sample_steady)
  from same dist have
    "filter (\<lambda>n. endswith n ''.pdf'') [''b.md'', ''b.pdf'', ''a.md'', ''a.pdf''] =
       filter (\<lambda>n. endswith n ''.pdf'') [''a.pdf'', ''b.pdf''] \<or>
     None = (None :: error option) \<and>
     mset (filter (\<lambda>n. endswith n ''.pdf'') [''b.md'', ''b.pdf'', ''a.md'', ''a.pdf'']) =
       mset (filter (\<lambda>n. endswith n ''.pdf'') [''a.pdf'', ''b.pdf'']) \<and>
     distinct (map md_path_of (filter (\<lambda>n. endswith n ''.pdf'') [''a.pdf'', ''b.pdf'']))"
    by (intro disjI2 conjI refl)
  from run same dist unl std second_run_changes_nothing [OF run this unl std]
  show ?thesis by (intro conjI)
qed

text \<open>
  Without a proviso the claim fails. The second enumeration need not repeat the order of
  the first: after a first run that stopped at the malformed \<^verbatim>\<open>bad.pdf\<close>, a second run
  that meets \<^verbatim>\<open>c.pdf\<close> first creates \<^verbatim>\<open>doc/c.md\<close>; and \<^verbatim>\<open>.pdf\<close> and \<^verbatim>\<open>.pdf.pdf\<close> are both
  written to \<^verbatim>\<open>doc/.pdf.md\<close>, so that the second run, in the other order, changes its
  content. On a host that lets a file be created and not opened again (a \<^verbatim>\<open>umask\<close> that
  takes the write permission away), the first run creates \<^verbatim>\<open>doc/a.md\<close> and the second is
  refused when it opens it. And where \<^verbatim>\<open>doc/a.md\<close> is a link to \<^verbatim>\<open>doc/a.pdf\<close>, the first run
  overwrites the source, and the second run, in the same order, extracts another text from
  it. All the lists are enumerations of the directory as it stands.
\<close>

theorem second_run_in_another_order_differs:
  "lists_dir (files (doc_with [(''a.pdf'', File [65]), (''bad.pdf'', File []), (''c.pdf'', File [67])]))
     pdf_dir [''a.pdf'', ''bad.pdf'', ''c.pdf''] \<and>
   main sample_env [''a.pdf'', ''bad.pdf'', ''c.pdf'']
       (doc_with [(''a.pdf'', File [65]), (''bad.pdf'', File []), (''c.pdf'', File [67])]) =
     (doc_with [(''a.md'', File [65]), (''a.pdf'', File [65]), (''bad.pdf'', File []), (''c.pdf'', File [67])],
      Some PDFSyntaxError) \<and>
   lists_dir (files (doc_with [(''a.md'', File [65]), (''a.pdf'', File [65]), (''bad.pdf'', File []), (''c.pdf'', File [67])]))
     pdf_dir [''c.pdf'', ''a.md'', ''a.pdf'', ''bad.pdf''] \<and>
   main sample_env [''c.pdf'', ''a.md'', ''a.pdf'', ''bad.pdf'']
       (doc_with [(''a.md'', File [65]), (''a.pdf'', File [65]), (''bad.pdf'', File []), (''c.pdf'', File [67])]) \<noteq>
     (doc_with [(''a.md'', File [65]), (''a.pdf'', File [65]), (''bad.pdf'', File []), (''c.pdf'', File [67])],
      Some PDFSyntaxError) \<and>
   lists_dir (files (doc_with [(''.pdf'', File [65]), (''.pdf.pdf'', File [66])]))
     pdf_dir [''.pdf'', ''.pdf.pdf''] \<and>
   main sample_env [''.pdf'', ''.pdf.pdf''] (doc_with [(''.pdf'', File [65]), (''.pdf.pdf'', File [66])]) =
     (doc_with [(''.pdf.md'', File [66]), (''.pdf'', File [65]), (''.pdf.pdf'', File [66])], None) \<and>
   lists_dir (files (doc_with [(''.pdf.md'', File [66]), (''.pdf'', File [65]), (''.pdf.pdf'', File [66])]))
     pdf_dir [''.pdf.md'', ''.pdf.pdf'', ''.pdf''] \<and>
   main sample_env [''.pdf.md'', ''.pdf.pdf'', ''.pdf'']
       (doc_with [(''.pdf.md'', File [66]), (''.pdf'', File [65]), (''.pdf.pdf'', File [66])]) \<noteq>
     (doc_with [(''.pdf.md'', File [66]), (''.pdf'', File [65]), (''.pdf.pdf'', File [66])], None) \<and>
   lists_dir (files (doc_with [(''a.pdf'', File [65])])) pdf_dir [''a.pdf''] \<and>
   main umask_env [''a.pdf''] (doc_with [(''a.pdf'', File [65])]) =
     (doc_with [(''a.md'', File [65]), (''a.pdf'', File [65])], None) \<and>
   lists_dir (files (doc_with [(''a.md'', File [65]), (''a.pdf'', File [65])])) pdf_dir [''a.md'', ''a.pdf''] \<and>
   main umask_env [''a.md'', ''a.pdf''] (doc_with [(''a.md'', File [65]), (''a.pdf'', File [65])]) =
     (doc_with [(''a.md'', File [65]), (''a.pdf'', File [65])], Some PermissionError) \<and>
   lists_dir (files (doc_with [(''a.md'', File [0xE9]), (''a.pdf'', File [0xE9])])) pdf_dir [''a.md'', ''a.pdf''] \<and>
   links (linked_env ''doc/a.md'' ''doc/a.pdf'') ''doc/a.md'' = {''doc/a.pdf''} \<and>
   main (linked_env ''doc/a.md'' ''doc/a.pdf'') [''a.md'', ''a.pdf'']
       (doc_with [(''a.md'', File [0xE9]), (''a.pdf'', File [0xE9])]) =
     (doc_with [(''a.md'', File [0xC3, 0xA9]), (''a.pdf'', File [0xC3, 0xA9])], None) \<and>
   lists_dir (files (doc_with [(''a.md'', File [0xC3, 0xA9]), (''a.pdf'', File [0xC3, 0xA9])])) pdf_dir
     [''a.md'', ''a.pdf''] \<and>
   main (linked_env ''doc/a.md'' ''doc/a.pdf'') [''a.md'', ''a.pdf'']
       (doc_with [(''a.md'', File [0xC3, 0xA9]), (''a.pdf'', File [0xC3, 0xA9])]) =
     (doc_with [(''a.md'', File [0xC3, 0x83, 0xC2, 0xA9]), (''a.pdf'', File [0xC3, 0x83, 0xC2, 0xA9])], None) \<and>
   files (doc_with [(''a.md'', File [0xC3, 0x83, 0xC2, 0xA9]), (''a.pdf'', File [0xC3, 0x83, 0xC2, 0xA9])])
       ''doc/a.md'' \<noteq>
     files (doc_with [(''a.md'', File [0xC3, 0xA9]), (''a.pdf'', File [0xC3, 0xA9])]) ''doc/a.md''"
proof -
  let ?w = "doc_with [(''a.pdf'', File [65]), (''bad.pdf'', File []), (''c.pdf'', File [67])]"
  let ?w1 = "doc_with [(''a.md'', File [65]), (''a.pdf'', File [65]), (''bad.pdf'', File []), (''c.pdf'', File [67])]"
  let ?v = "doc_with [(''.pdf'', File [65]), (''.pdf.pdf'', File [66])]"
  let ?v1 = "doc_with [(''.pdf.md'', File [66]), (''.pdf'', File [65]), (''.pdf.pdf'', File [66])]"
  let ?u = "doc_with [(''a.pdf'', File [65])]"
  let ?u1 = "doc_with [(''a.md'', File [65]), (''a.pdf'', File [65])]"
  let ?L = "linked_env ''doc/a.md'' ''doc/a.pdf''"
  let ?k = "doc_with [(''a.md'', File [0xE9]), (''a.pdf'', File [0xE9])]"
  let ?k1 = "doc_with [(''a.md'', File [0xC3, 0xA9]), (''a.pdf'', File [0xC3, 0xA9])]"
  let ?k2 = "doc_with [(''a.md'', File [0xC3, 0x83, 0xC2, 0xA9]), (''a.pdf'', File [0xC3, 0x83, 0xC2, 0xA9])]"
  have n: "endswith ''a.pdf'' ''.pdf''" "endswith ''bad.pdf'' ''.pdf''" "endswith ''c.pdf'' ''.pdf''"
    "\<not> endswith ''a.md'' ''.pdf''"
    "pdf_path_of ''a.pdf'' = ''doc/a.pdf''" "md_path_of ''a.pdf'' = ''doc/a.md''"
    "pdf_path_of ''bad.pdf'' = ''doc/bad.pdf''" "md_path_of ''bad.pdf'' = ''doc/bad.md''"
    "pdf_path_of ''c.pdf'' = ''doc/c.pdf''" "md_path_of ''c.pdf'' = ''doc/c.md''"
    "endswith ''.pdf'' ''.pdf''" "endswith ''.pdf.pdf'' ''.pdf''" "\<not> endswith ''.pdf.md'' ''.pdf''"
    "pdf_path_of ''.pdf'' = ''doc/.pdf''" "md_path_of ''.pdf'' = ''doc/.pdf.md''"
    "pdf_path_of ''.pdf.pdf'' = ''doc/.pdf.pdf''" "md_path_of ''.pdf.pdf'' = ''doc/.pdf.md''"
    by code_simp+
  have en: "entry_name ''a.pdf''" "entry_name ''bad.pdf''" "entry_name ''c.pdf''"
    "entry_name ''a.md''" "entry_name ''.pdf''" "entry_name ''.pdf.pdf''" "entry_name ''.pdf.md''"
    by code_simp+
  have l1: "lists_dir (files ?w) pdf_dir [''a.pdf'', ''bad.pdf'', ''c.pdf'']"
    by (rule lists_dir_doc_with) (simp_all add: en)
  have r1: "main sample_env [''a.pdf'', ''bad.pdf'', ''c.pdf''] ?w = (?w1, Some PDFSyntaxError)"
    by (auto simp: n run_eval fun_eq_iff)
  have l2: "lists_dir (files ?w1) pdf_dir [''c.pdf'', ''a.md'', ''a.pdf'', ''bad.pdf'']"
    by (rule lists_dir_doc_with) (simp_all add: en)
  have "files (fst (?w1, Some PDFSyntaxError)) ''doc/c.md'' = None"
    by (simp add: doc_with_def)
  moreover have
    "files (fst (main sample_env [''c.pdf'', ''a.md'', ''a.pdf'', ''bad.pdf''] ?w1)) ''doc/c.md'' =
       Some (File [67])"
    by (simp add: n run_eval)
  ultimately have d1: "main sample_env [''c.pdf'', ''a.md'', ''a.pdf'', ''bad.pdf''] ?w1 \<noteq>
      (?w1, Some PDFSyntaxError)"
    by (metis option.distinct(1))
  have l3: "lists_dir (files ?v) pdf_dir [''.pdf'', ''.pdf.pdf'']"
    by (rule lists_dir_doc_with) (simp_all add: en)
  have r3: "main sample_env [''.pdf'', ''.pdf.pdf''] ?v = (?v1, None)"
    by (auto simp: n run_eval fun_eq_iff)
  have l4: "lists_dir (files ?v1) pdf_dir [''.pdf.md'', ''.pdf.pdf'', ''.pdf'']"
    by (rule lists_dir_doc_with) (simp_all add: en)
  have "files (fst (?v1, None :: error option)) ''doc/.pdf.md'' = Some (File [66])"
    by (simp add: doc_with_def)
  moreover have
    "files (fst (main sample_env [''.pdf.md'', ''.pdf.pdf'', ''.pdf''] ?v1)) ''doc/.pdf.md'' =
       Some (File [65])"
    by (simp add: n run_eval)
  ultimately have d2: "main sample_env [''.pdf.md'', ''.pdf.pdf'', ''.pdf''] ?v1 \<noteq> (?v1, None)"
    by (rule differ_at) simp
  have l5: "lists_dir (files ?u) pdf_dir [''a.pdf'']"
    by (rule lists_dir_doc_with) (simp_all add: en)
  have r5: "main umask_env [''a.pdf''] ?u = (?u1, None)"
    by (auto simp: n run_eval fun_eq_iff)
  have l6: "lists_dir (files ?u1) pdf_dir [''a.md'', ''a.pdf'']"
    by (rule lists_dir_doc_with) (simp_all add: en)
  have r6: "main umask_env [''a.md'', ''a.pdf''] ?u1 = (?u1, Some PermissionError)"
    by (auto simp: n run_eval fun_eq_iff)
  have l7: "lists_dir (files ?k) pdf_dir [''a.md'', ''a.pdf'']"
    by (rule lists_dir_doc_with) (simp_all add: en)
  have k: "links ?L ''doc/a.md'' = {''doc/a.pdf''}"
    by (simp add: linked_env_def sample_env_def)
  have r7: "main ?L [''a.md'', ''a.pdf''] ?k = (?k1, None)"
    by (auto simp: n run_eval fun_eq_iff)
  have l8: "lists_dir (files ?k1) pdf_dir [''a.md'', ''a.pdf'']"
    by (rule lists_dir_doc_with) (simp_all add: en)
  have r8: "main ?L [''a.md'', ''a.pdf''] ?k1 = (?k2, None)"
    by (auto simp: n run_eval fun_eq_iff)
  have d8: "files ?k2 ''doc/a.md'' \<noteq> files ?k1 ''doc/a.md''"
    by (simp add: doc_with_def)
  from l1 r1 l2 d1 l3 r3 l4 d2 l5 r5 l6 r6 l7 k r7 l8 r8 d8 show ?thesis by (intro conjI)
qed

subsection \<open>C5: the extracted text is written as it is\<close>

text \<open>
  Claim C5: for a qualifying entry the converter writes the extracted text verbatim, UTF-8
  encoded, to the destination path, creating the file if absent and overwriting it if
  present; the content equals the extracted string with nothing added or removed.

  The file is opened in text mode, and Python's text layer writes every line feed of the
  text as \<^verbatim>\<open>os.linesep\<close>. On a host where \<^verbatim>\<open>os.linesep\<close> is carriage return and line feed,
  the text \<^verbatim>\<open>Hi\<close> followed by a line feed, three characters that encode to three bytes, is
  written as four bytes: a carriage return has been added.
\<close>

theorem line_feed_written_as_linesep:
  "linesep crlf_env = [13, 10] \<and>
   extract_text crlf_env (files (doc_with [(''a.pdf'', File [72, 105, 10])])) ''doc/a.pdf'' =
     Inr [72, 105, 10] \<and>
   utf8_encode [72, 105, 10] = Inr [72, 105, 10] \<and>
   pdf_to_markdown crlf_env ''doc/a.pdf'' ''doc/a.md'' (doc_with [(''a.pdf'', File [72, 105, 10])]) =
     (doc_with [(''a.md'', File [72, 105, 13, 10]), (''a.pdf'', File [72, 105, 10])], None) \<and>
   files (doc_with [(''a.md'', File [72, 105, 13, 10]), (''a.pdf'', File [72, 105, 10])]) ''doc/a.md'' =
     Some (File [72, 105, 13, 10]) \<and>
   utf8_decode [72, 105, 13, 10] = Some [72, 105, 13, 10]"
proof -
  let ?w = "doc_with [(''a.pdf'', File [72, 105, 10])]"
  let ?w' = "doc_with [(''a.md'', File [72, 105, 13, 10]), (''a.pdf'', File [72, 105, 10])]"
  have a: "linesep crlf_env = [13, 10]"
    by (simp add: crlf_env_def sample_env_def)
  have b: "extract_text crlf_env (files ?w) ''doc/a.pdf'' = Inr [72, 105, 10]"
    by (simp add: run_eval)
  have c: "utf8_encode [72, 105, 10] = Inr [72, 105, 10]" by code_simp
  have d: "pdf_to_markdown crlf_env ''doc/a.pdf'' ''doc/a.md'' ?w = (?w', None)"
    by (auto simp: run_eval fun_eq_iff)
  have e: "files ?w' ''doc/a.md'' = Some (File [72, 105, 13, 10])"
    by (simp add: doc_with_def)
  have f: "utf8_decode [72, 105, 13, 10] = Some [72, 105, 13, 10]" by code_simp
  from a b c d e f show ?thesis by (intro conjI)
qed

text \<open>
  What holds on every host: whatever was at \<open>md_path\<close> (nothing, or a file), after the
  call that path, and every path that names the same file, holds the UTF-8 encoding of the
  text with each line feed written as \<^verbatim>\<open>os.linesep\<close>, and these bytes decode to that
  string again; every other path and the standard output are as before. Where
  \<^verbatim>\<open>os.linesep\<close> is the line feed, or the text has no line feed, the bytes are the
  encoding of the text itself, nothing added and nothing removed.
\<close>

theorem pdf_to_markdown_writes_text:
  assumes "extract_text E (files w) pdf_path = Inr text"
    and "utf8_encode (translate_newlines (linesep E) text) = Inr bytes"
    and "files w md_path \<noteq> Some Dir"
    and "write_denied E (files w md_path \<noteq> None) md_path = None"
  shows "pdf_to_markdown E pdf_path md_path w =
           (w\<lparr>files := put E md_path (File bytes) (files w)\<rparr>, None) \<and>
         utf8_decode bytes = Some (translate_newlines (linesep E) text) \<and>
         (linesep E = [10] \<or> 10 \<notin> set text \<longrightarrow>
            utf8_encode text = Inr bytes \<and> utf8_decode bytes = Some text)"
proof (intro conjI impI)
  show "pdf_to_markdown E pdf_path md_path w =
      (w\<lparr>files := put E md_path (File bytes) (files w)\<rparr>, None)"
    using assms by (rule pdf_to_markdown_success)
  show "utf8_decode bytes = Some (translate_newlines (linesep E) text)"
    using assms(2) by (rule utf8_roundtrip)
  assume "linesep E = [10] \<or> 10 \<notin> set text"
  then have same: "translate_newlines (linesep E) text = text"
    by (rule translate_newlines_verbatim)
  with assms(2) show "utf8_encode text = Inr bytes" by simp
  then show "utf8_decode bytes = Some text" by (rule utf8_roundtrip)
qed

theorem pdf_to_markdown_writes_text_witness:
  "extract_text sample_env
       (files (doc_with [(''a.pdf'', File [72, 105, 10]), (''a.md'', File [111, 108, 100])])) ''doc/a.pdf'' =
     Inr [72, 105, 10] \<and>
   linesep sample_env = [10] \<and>
   utf8_encode (translate_newlines [10] [72, 105, 10]) = Inr [72, 105, 10] \<and>
   files (doc_with [(''a.pdf'', File [72, 105, 10]), (''a.md'', File [111, 108, 100])]) ''doc/a.md'' =
     Some (File [111, 108, 100]) \<and>
   write_denied sample_env True ''doc/a.md'' = None \<and>
   pdf_to_markdown sample_env ''doc/a.pdf'' ''doc/a.md''
       (doc_with [(''a.pdf'', File [72, 105, 10]), (''a.md'', File [111, 108, 100])]) =
     ((doc_with [(''a.pdf'', File [72, 105, 10]), (''a.md'', File [111, 108, 100])])
        \<lparr>files := put sample_env ''doc/a.md'' (File [72, 105, 10])
                    (files (doc_with [(''a.pdf'', File [72, 105, 10]), (''a.md'', File [111, 108, 100])]))\<rparr>,
      None) \<and>
   put sample_env ''doc/a.md'' (File [72, 105, 10])
       (files (doc_with [(''a.pdf'', File [72, 105, 10]), (''a.md'', File [111, 108, 100])])) =
     (files (doc_with [(''a.pdf'', File [72, 105, 10]), (''a.md'', File [111, 108, 100])]))
       (''doc/a.md'' \<mapsto> File [72, 105, 10]) \<and>
   utf8_encode [72, 105, 10] = Inr [72, 105, 10] \<and>
   utf8_decode [72, 105, 10] = Some [72, 105, 10]"
proof -
  let ?w = "doc_with [(''a.pdf'', File [72, 105, 10]), (''a.md'', File [111, 108, 100])]"
  have "files ?w ''doc/a.pdf'' = Some (File [72, 105, 10])" by (simp add: doc_with_def)
  from sample_extract [OF this]
  have h1: "extract_text sample_env (files ?w) ''doc/a.pdf'' = Inr [72, 105, 10]" by simp
  have e: "utf8_encode [72, 105, 10] = Inr [72, 105, 10]" by code_simp
  then have e': "utf8_encode (translate_newlines [10] [72, 105, 10]) = Inr [72, 105, 10]"
    by (simp only: translate_newlines_lf)
  then have h2: "utf8_encode (translate_newlines (linesep sample_env) [72, 105, 10]) = Inr [72, 105, 10]"
    by (simp only: sample_linesep)
  have old: "files ?w ''doc/a.md'' = Some (File [111, 108, 100])" by (simp add: doc_with_def)
  then have h3: "files ?w ''doc/a.md'' \<noteq> Some Dir" by simp
  have h4: "write_denied sample_env (files ?w ''doc/a.md'' \<noteq> None) ''doc/a.md'' = None"
    by (rule sample_write_denied)
  have h4': "write_denied sample_env True ''doc/a.md'' = None"
    by (rule sample_write_denied)
  note t = pdf_to_markdown_writes_text [OF h1 h2 h3 h4]
  from t have r: "pdf_to_markdown sample_env ''doc/a.pdf'' ''doc/a.md'' ?w =
      (?w\<lparr>files := put sample_env ''doc/a.md'' (File [72, 105, 10]) (files ?w)\<rparr>, None)"
    by (rule conjunct1)
  have p: "put sample_env ''doc/a.md'' (File [72, 105, 10]) (files ?w) =
      (files ?w)(''doc/a.md'' \<mapsto> File [72, 105, 10])"
    using sample_links by (rule put_unlinked)
  from t sample_linesep have d: "utf8_decode [72, 105, 10] = Some [72, 105, 10]"
    by blast
  from h1 sample_linesep e' old h4' r p e d show ?thesis by (intro conjI)
qed

subsection \<open>C6: a failure ends the batch\<close>

text \<open>
  Claim C6: if extraction or writing fails for a file, the error propagates and ends the
  whole batch at once; no later entry is processed, nothing is retried.

  When the entries \<open>pre\<close> were processed without error and the conversion of the next
  matched entry raises \<open>e\<close>, the script ends with \<open>e\<close> in the world that this failing
  call left, whatever entries \<open>post\<close> follow.
\<close>

theorem failure_terminates_batch:
  assumes "files w pdf_dir = Some Dir"
    and "convert_loop E pre w = (w1, None)"
    and "endswith filename ''.pdf''"
    and "pdf_to_markdown E (pdf_path_of filename) (md_path_of filename) w1 = (w2, Some e)"
  shows "main E (pre @ filename # post) w = (w2, Some e)"
  using convert_loop_raises_at [OF assms(2-4)] main_eq_loop [OF assms(1)] by simp

theorem failure_terminates_batch_witness:
  "files (doc_with [(''a.pdf'', File [72]), (''bad.pdf'', File []), (''c.pdf'', File [73])]) pdf_dir = Some Dir \<and>
   convert_loop sample_env [''a.pdf'']
       (doc_with [(''a.pdf'', File [72]), (''bad.pdf'', File []), (''c.pdf'', File [73])]) =
     ((doc_with [(''a.pdf'', File [72]), (''bad.pdf'', File []), (''c.pdf'', File [73])])
        \<lparr>files := (files (doc_with [(''a.pdf'', File [72]), (''bad.pdf'', File []), (''c.pdf'', File [73])]))
                    (''doc/a.md'' \<mapsto> File [72])\<rparr>, None) \<and>
   endswith ''bad.pdf'' ''.pdf'' \<and>
   main sample_env [''a.pdf'', ''bad.pdf'', ''c.pdf'']
       (doc_with [(''a.pdf'', File [72]), (''bad.pdf'', File []), (''c.pdf'', File [73])]) =
     ((doc_with [(''a.pdf'', File [72]), (''bad.pdf'', File []), (''c.pdf'', File [73])])
        \<lparr>files := (files (doc_with [(''a.pdf'', File [72]), (''bad.pdf'', File []), (''c.pdf'', File [73])]))
                    (''doc/a.md'' \<mapsto> File [72])\<rparr>, Some PDFSyntaxError) \<and>
   files ((doc_with [(''a.pdf'', File [72]), (''bad.pdf'', File []), (''c.pdf'', File [73])])
        \<lparr>files := (files (doc_with [(''a.pdf'', File [72]), (''bad.pdf'', File []), (''c.pdf'', File [73])]))
                    (''doc/a.md'' \<mapsto> File [72])\<rparr>) ''doc/c.md'' = None"
proof -
  let ?w = "doc_with [(''a.pdf'', File [72]), (''bad.pdf'', File []), (''c.pdf'', File [73])]"
  let ?w1 = "?w\<lparr>files := (files ?w)(''doc/a.md'' \<mapsto> File [72])\<rparr>"
  have a: "endswith ''a.pdf'' ''.pdf''" and b: "endswith ''bad.pdf'' ''.pdf''" by code_simp+
  have sa: "pdf_path_of ''a.pdf'' = ''doc/a.pdf''" and da: "md_path_of ''a.pdf'' = ''doc/a.md''"
    and sb: "pdf_path_of ''bad.pdf'' = ''doc/bad.pdf''" by code_simp+
  have "files ?w ''doc/a.pdf'' = Some (File [72])" by (simp add: doc_with_def)
  from sample_extract [OF this]
  have h1: "extract_text sample_env (files ?w) ''doc/a.pdf'' = Inr [72]" by simp
  have h2: "utf8_encode [72] = Inr [72]" by code_simp
  have h3: "files ?w ''doc/a.md'' \<noteq> Some Dir" by (simp add: doc_with_def)
  have "pdf_to_markdown sample_env (pdf_path_of ''a.pdf'') (md_path_of ''a.pdf'') ?w = (?w1, None)"
    unfolding sa da using h1 h2 h3 by (rule sample_pdf_to_markdown)
  from convert_loop_step_ok [OF a this, of "[]"]
  have pre: "convert_loop sample_env [''a.pdf''] ?w = (?w1, None)" by simp
  have "files ?w1 ''doc/bad.pdf'' = Some (File [])" by (simp add: doc_with_def)
  from pdf_to_markdown_extract_fails [OF sample_extract_empty [OF this]]
  have bad: "pdf_to_markdown sample_env (pdf_path_of ''bad.pdf'') (md_path_of ''bad.pdf'') ?w1 =
      (?w1, Some PDFSyntaxError)"
    unfolding sb .
  from failure_terminates_batch [OF sample_dir pre b bad, of "[''c.pdf'']"]
  have run: "main sample_env [''a.pdf'', ''bad.pdf'', ''c.pdf''] ?w = (?w1, Some PDFSyntaxError)"
    by simp
  have none: "files ?w1 ''doc/c.md'' = None" by (simp add: doc_with_def)
  from sample_dir [of "[(''a.pdf'', File [72]), (''bad.pdf'', File []), (''c.pdf'', File [73])]"]
    pre b run none
  show ?thesis by (intro conjI)
qed

subsection \<open>C7: the Image Generator\<close>

text \<open>
  Claim C7: the Image Generator makes a 300 by 200 canvas filled with \<^verbatim>\<open>lightblue\<close>, draws
  the string \<^verbatim>\<open>Test Image\<close> at (50, 90) in \<^verbatim>\<open>black\<close>, saves the canvas as JPEG under
  \<^verbatim>\<open>test-image.jpg\<close>, and prints a fixed confirmation message.

  When the library has a JPEG encoder that accepts this canvas and the file may be
  written, the script leaves the encoder's output for exactly this canvas at
  \<^verbatim>\<open>test-image.jpg\<close> (and under every path that names the same file) and one more line on
  standard output.
\<close>

theorem create_test_image_result:
  assumes "save_handler L ''JPEG'' = Some encode"
    and "encode \<lparr>mode = ''RGB'', dimensions = (300, 200), background = ''lightblue'',
                  drawn = [DrawText (50, 90) ''Test Image'' ''black'']\<rparr> = Inr bytes"
    and "files w ''test-image.jpg'' \<noteq> Some Dir"
    and "write_denied E (files w ''test-image.jpg'' \<noteq> None) ''test-image.jpg'' = None"
  shows "create_test_image L E w =
           (\<lparr>files = put E ''test-image.jpg'' (File bytes) (files w),
             stdout = stdout w @ ''Test image created successfully'' @ [CHR 0x0A]\<rparr>, None)"
proof -
  have "open_w E (files w) ''test-image.jpg'' = Inr (put E ''test-image.jpg'' (File []) (files w))"
  proof (cases "files w ''test-image.jpg''")
    case None
    with assms(4) show ?thesis by (simp add: open_w_def)
  next
    case (Some x)
    with assms(3) obtain old where "x = File old" by (cases x) auto
    with Some assms(4) show ?thesis by (simp add: open_w_def)
  qed
  with assms(1,2) show ?thesis
    by (simp add: create_test_image_def Image_save_def Image_new_def ImageDraw_text_def
        py_print_def)
qed

theorem create_test_image_result_witness:
  "save_handler sample_pil ''JPEG'' = Some (\<lambda>img. Inr [0xFF, 0xD8, 0xFF, 0xD9]) \<and>
   files \<lparr>files = Map.empty, stdout = []\<rparr> ''test-image.jpg'' = None \<and>
   write_denied sample_env False ''test-image.jpg'' = None \<and>
   links sample_env ''test-image.jpg'' = {} \<and>
   create_test_image sample_pil sample_env \<lparr>files = Map.empty, stdout = []\<rparr> =
     (\<lparr>files = [''test-image.jpg'' \<mapsto> File [0xFF, 0xD8, 0xFF, 0xD9]],
       stdout = ''Test image created successfully'' @ [CHR 0x0A]\<rparr>, None)"
proof -
  let ?w = "\<lparr>files = Map.empty, stdout = []\<rparr>"
  have h1: "save_handler sample_pil ''JPEG'' = Some (\<lambda>img. Inr [0xFF, 0xD8, 0xFF, 0xD9])"
    by (simp add: sample_pil_def)
  have h2: "(\<lambda>img :: image. Inr [0xFF, 0xD8, 0xFF, 0xD9] :: error + byte list)
      \<lparr>mode = ''RGB'', dimensions = (300, 200), background = ''lightblue'',
        drawn = [DrawText (50, 90) ''Test Image'' ''black'']\<rparr> = Inr [0xFF, 0xD8, 0xFF, 0xD9]"
    by simp
  have n: "files ?w ''test-image.jpg'' = None" by simp
  then have h3: "files ?w ''test-image.jpg'' \<noteq> Some Dir" by simp
  have h4: "write_denied sample_env (files ?w ''test-image.jpg'' \<noteq> None) ''test-image.jpg'' = None"
    by (rule sample_write_denied)
  have h4': "write_denied sample_env False ''test-image.jpg'' = None"
    by (rule sample_write_denied)
  have l: "links sample_env ''test-image.jpg'' = {}" by (rule sample_links)
  have "create_test_image sample_pil sample_env ?w =
     (\<lparr>files = [''test-image.jpg'' \<mapsto> File [0xFF, 0xD8, 0xFF, 0xD9]],
       stdout = ''Test image created successfully'' @ [CHR 0x0A]\<rparr>, None)"
    using create_test_image_result [OF h1 h2 h3 h4] by (simp add: put_unlinked [OF l])
  with h1 n h4' l show ?thesis by (intro conjI)
qed

subsection \<open>C8: the order of enumeration\<close>

text \<open>
  Claim C8: the result of the conversion loop does not depend on the order in which the
  entries of \<^verbatim>\<open>doc\<close> are enumerated.

  This holds when the loop over one enumeration raises no error, no two \<^verbatim>\<open>.pdf\<close> entries
  have the same destination (\<open>destination_shared\<close> says which entries do), and no
  destination path names the same file as another path: then the loop over any permutation
  ends in the same world, without error.
\<close>

theorem enumeration_order_irrelevant_without_failure_or_clash:
  assumes "mset names2 = mset names1"
    and "snd (convert_loop E names1 w) = None"
    and "distinct (map md_path_of (filter (\<lambda>n. endswith n ''.pdf'') names1))"
    and "unlinked_destinations E names1"
  shows "convert_loop E names2 w = convert_loop E names1 w"
  using assms by (rule convert_loop_permuted)

theorem enumeration_order_irrelevant_witness:
  "mset [''b.pdf'', ''notes.txt'', ''a.pdf''] = mset [''a.pdf'', ''b.pdf'', ''notes.txt''] \<and>
   snd (convert_loop sample_env [''a.pdf'', ''b.pdf'', ''notes.txt'']
          (doc_with [(''a.pdf'', File [65]), (''b.pdf'', File [66]), (''notes.txt'', File [67])])) = None \<and>
   distinct (map md_path_of (filter (\<lambda>n. endswith n ''.pdf'') [''a.pdf'', ''b.pdf'', ''notes.txt''])) \<and>
   unlinked_destinations sample_env [''a.pdf'', ''b.pdf'', ''notes.txt''] \<and>
   convert_loop sample_env [''b.pdf'', ''notes.txt'', ''a.pdf'']
       (doc_with [(''a.pdf'', File [65]), (''b.pdf'', File [66]), (''notes.txt'', File [67])]) =
     convert_loop sample_env [''a.pdf'', ''b.pdf'', ''notes.txt'']
       (doc_with [(''a.pdf'', File [65]), (''b.pdf'', File [66]), (''notes.txt'', File [67])])"
proof -
  let ?w = "doc_with [(''a.pdf'', File [65]), (''b.pdf'', File [66]), (''notes.txt'', File [67])]"
  have n: "endswith ''a.pdf'' ''.pdf''" "endswith ''b.pdf'' ''.pdf''"
    "\<not> endswith ''notes.txt'' ''.pdf''"
    "pdf_path_of ''a.pdf'' = ''doc/a.pdf''" "md_path_of ''a.pdf'' = ''doc/a.md''"
    "pdf_path_of ''b.pdf'' = ''doc/b.pdf''" "md_path_of ''b.pdf'' = ''doc/b.md''"
    by code_simp+
  have h1: "mset [''b.pdf'', ''notes.txt'', ''a.pdf''] = mset [''a.pdf'', ''b.pdf'', ''notes.txt'']"
    by simp
  have h2: "snd (convert_loop sample_env [''a.pdf'', ''b.pdf'', ''notes.txt''] ?w) = None"
    by (simp add: n run_eval)
  have h3: "distinct (map md_path_of (filter (\<lambda>n. endswith n ''.pdf'') [''a.pdf'', ''b.pdf'', ''notes.txt'']))"
    by (simp add: n)
  have h4: "unlinked_destinations sample_env [''a.pdf'', ''b.pdf'', ''notes.txt'']"
    by (rule sample_unlinked)
  from h1 h2 h3 h4 enumeration_order_irrelevant_without_failure_or_clash [OF h1 h2 h3 h4]
  show ?thesis by (intro conjI)
qed

text \<open>
  Each proviso is needed. The entries \<^verbatim>\<open>.pdf\<close> and \<^verbatim>\<open>.pdf.pdf\<close> have the same destination
  \<^verbatim>\<open>doc/.pdf.md\<close>, and the one converted last decides its content. With a malformed
  \<^verbatim>\<open>bad.pdf\<close>, \<^verbatim>\<open>doc/a.md\<close> exists only if \<^verbatim>\<open>a.pdf\<close> came first. And where \<^verbatim>\<open>doc/a.md\<close> and
  \<^verbatim>\<open>doc/b.md\<close> are two names of one file, both runs raise nothing and the two destination
  paths differ, but the file holds the text of the entry converted last.
\<close>

theorem enumeration_order_matters:
  "mset [''.pdf.pdf'', ''.pdf''] = mset [''.pdf'', ''.pdf.pdf''] \<and>
   convert_loop sample_env [''.pdf.pdf'', ''.pdf'']
       (doc_with [(''.pdf'', File [65]), (''.pdf.pdf'', File [66])]) \<noteq>
     convert_loop sample_env [''.pdf'', ''.pdf.pdf'']
       (doc_with [(''.pdf'', File [65]), (''.pdf.pdf'', File [66])]) \<and>
   mset [''bad.pdf'', ''a.pdf''] = mset [''a.pdf'', ''bad.pdf''] \<and>
   convert_loop sample_env [''bad.pdf'', ''a.pdf'']
       (doc_with [(''a.pdf'', File [65]), (''bad.pdf'', File [])]) \<noteq>
     convert_loop sample_env [''a.pdf'', ''bad.pdf'']
       (doc_with [(''a.pdf'', File [65]), (''bad.pdf'', File [])]) \<and>
   mset [''b.pdf'', ''a.pdf''] = mset [''a.pdf'', ''b.pdf''] \<and>
   links (linked_env ''doc/a.md'' ''doc/b.md'') ''doc/a.md'' = {''doc/b.md''} \<and>
   distinct (map md_path_of (filter (\<lambda>n. endswith n ''.pdf'') [''a.pdf'', ''b.pdf''])) \<and>
   snd (convert_loop (linked_env ''doc/a.md'' ''doc/b.md'') [''a.pdf'', ''b.pdf'']
          (doc_with [(''a.md'', File [120]), (''a.pdf'', File [65]),
                     (''b.md'', File [120]), (''b.pdf'', File [66])])) = None \<and>
   snd (convert_loop (linked_env ''doc/a.md'' ''doc/b.md'') [''b.pdf'', ''a.pdf'']
          (doc_with [(''a.md'', File [120]), (''a.pdf'', File [65]),
                     (''b.md'', File [120]), (''b.pdf'', File [66])])) = None \<and>
   convert_loop (linked_env ''doc/a.md'' ''doc/b.md'') [''b.pdf'', ''a.pdf'']
       (doc_with [(''a.md'', File [120]), (''a.pdf'', File [65]),
                  (''b.md'', File [120]), (''b.pdf'', File [66])]) \<noteq>
     convert_loop (linked_env ''doc/a.md'' ''doc/b.md'') [''a.pdf'', ''b.pdf'']
       (doc_with [(''a.md'', File [120]), (''a.pdf'', File [65]),
                  (''b.md'', File [120]), (''b.pdf'', File [66])])"
proof -
  let ?w = "doc_with [(''.pdf'', File [65]), (''.pdf.pdf'', File [66])]"
  let ?v = "doc_with [(''a.pdf'', File [65]), (''bad.pdf'', File [])]"
  let ?L = "linked_env ''doc/a.md'' ''doc/b.md''"
  let ?u = "doc_with [(''a.md'', File [120]), (''a.pdf'', File [65]),
                      (''b.md'', File [120]), (''b.pdf'', File [66])]"
  have n: "endswith ''.pdf'' ''.pdf''" "endswith ''.pdf.pdf'' ''.pdf''"
    "pdf_path_of ''.pdf'' = ''doc/.pdf''" "md_path_of ''.pdf'' = ''doc/.pdf.md''"
    "pdf_path_of ''.pdf.pdf'' = ''doc/.pdf.pdf''" "md_path_of ''.pdf.pdf'' = ''doc/.pdf.md''"
    "endswith ''a.pdf'' ''.pdf''" "endswith ''bad.pdf'' ''.pdf''"
    "pdf_path_of ''a.pdf'' = ''doc/a.pdf''" "md_path_of ''a.pdf'' = ''doc/a.md''"
    "pdf_path_of ''bad.pdf'' = ''doc/bad.pdf''" "md_path_of ''bad.pdf'' = ''doc/bad.md''"
    "endswith ''b.pdf'' ''.pdf''"
    "pdf_path_of ''b.pdf'' = ''doc/b.pdf''" "md_path_of ''b.pdf'' = ''doc/b.md''"
    by code_simp+
  have "files (fst (convert_loop sample_env [''.pdf'', ''.pdf.pdf''] ?w)) ''doc/.pdf.md'' = Some (File [66])"
    by (simp add: n run_eval)
  moreover
  have "files (fst (convert_loop sample_env [''.pdf.pdf'', ''.pdf''] ?w)) ''doc/.pdf.md'' = Some (File [65])"
    by (simp add: n run_eval)
  ultimately have clash: "convert_loop sample_env [''.pdf.pdf'', ''.pdf''] ?w \<noteq>
      convert_loop sample_env [''.pdf'', ''.pdf.pdf''] ?w"
    by (rule differ_at) simp
  have "files (fst (convert_loop sample_env [''a.pdf'', ''bad.pdf''] ?v)) ''doc/a.md'' = Some (File [65])"
    by (simp add: n run_eval)
  moreover
  have "files (fst (convert_loop sample_env [''bad.pdf'', ''a.pdf''] ?v)) ''doc/a.md'' = None"
    by (simp add: n run_eval)
  ultimately have fail: "convert_loop sample_env [''bad.pdf'', ''a.pdf''] ?v \<noteq>
      convert_loop sample_env [''a.pdf'', ''bad.pdf''] ?v"
    by (rule differ_at) simp
  have k: "links ?L ''doc/a.md'' = {''doc/b.md''}"
    by (simp add: linked_env_def sample_env_def)
  have dist: "distinct (map md_path_of (filter (\<lambda>n. endswith n ''.pdf'') [''a.pdf'', ''b.pdf'']))"
    by (simp add: n)
  have ok1: "snd (convert_loop ?L [''a.pdf'', ''b.pdf''] ?u) = None"
    by (simp add: n run_eval)
  have ok2: "snd (convert_loop ?L [''b.pdf'', ''a.pdf''] ?u) = None"
    by (simp add: n run_eval)
  have "files (fst (convert_loop ?L [''a.pdf'', ''b.pdf''] ?u)) ''doc/a.md'' = Some (File [66])"
    by (simp add: n run_eval)
  moreover
  have "files (fst (convert_loop ?L [''b.pdf'', ''a.pdf''] ?u)) ''doc/a.md'' = Some (File [65])"
    by (simp add: n run_eval)
  ultimately have linked: "convert_loop ?L [''b.pdf'', ''a.pdf''] ?u \<noteq>
      convert_loop ?L [''a.pdf'', ''b.pdf''] ?u"
    by (rule differ_at) simp
  have m: "mset [''.pdf.pdf'', ''.pdf''] = mset [''.pdf'', ''.pdf.pdf'']"
    "mset [''bad.pdf'', ''a.pdf''] = mset [''a.pdf'', ''bad.pdf'']"
    "mset [''b.pdf'', ''a.pdf''] = mset [''a.pdf'', ''b.pdf'']"
    by simp_all
  from m(1) clash m(2) fail m(3) k dist ok1 ok2 linked show ?thesis by (intro conjI)
qed

subsection \<open>C9: the entry named \<^verbatim>\<open>.pdf\<close>\<close>

text \<open>
  Claim C9: a file named exactly \<^verbatim>\<open>.pdf\<close> is matched, and its output goes to
  \<^verbatim>\<open>doc/.pdf.md\<close>, not to \<^verbatim>\<open>doc/.md\<close>: \<^verbatim>\<open>splitext\<close> takes \<^verbatim>\<open>.pdf\<close> for a base name with no
  extension. \<open>bytes\<close> is what the text layer writes for the extracted text: its UTF-8
  encoding, each line feed written as \<^verbatim>\<open>os.linesep\<close>.
\<close>

theorem dot_pdf_entry_destination:
  assumes "files w pdf_dir = Some Dir"
    and "extract_text E (files w) ''doc/.pdf'' = Inr text"
    and "utf8_encode (translate_newlines (linesep E) text) = Inr bytes"
    and "files w ''doc/.pdf.md'' \<noteq> Some Dir"
    and "write_denied E (files w ''doc/.pdf.md'' \<noteq> None) ''doc/.pdf.md'' = None"
  shows "endswith ''.pdf'' ''.pdf'' \<and> md_filename_of ''.pdf'' = ''.pdf.md'' \<and>
         md_path_of ''.pdf'' = ''doc/.pdf.md'' \<and>
         main E [''.pdf''] w = (w\<lparr>files := put E ''doc/.pdf.md'' (File bytes) (files w)\<rparr>, None)"
proof -
  have m: "endswith ''.pdf'' ''.pdf''" by code_simp
  have f: "md_filename_of ''.pdf'' = ''.pdf.md''" by code_simp
  have s: "pdf_path_of ''.pdf'' = ''doc/.pdf''" by code_simp
  have d: "md_path_of ''.pdf'' = ''doc/.pdf.md''" by code_simp
  have "pdf_to_markdown E (pdf_path_of ''.pdf'') (md_path_of ''.pdf'') w =
          (w\<lparr>files := put E ''doc/.pdf.md'' (File bytes) (files w)\<rparr>, None)"
    unfolding s d using assms(2-5) by (rule pdf_to_markdown_success)
  from convert_loop_step_ok [OF m this, of "[]"]
  have "main E [''.pdf''] w = (w\<lparr>files := put E ''doc/.pdf.md'' (File bytes) (files w)\<rparr>, None)"
    unfolding main_eq_loop [OF assms(1)] by simp
  with m f d show ?thesis by (intro conjI)
qed

theorem dot_pdf_entry_destination_witness:
  "files (doc_with [(''.pdf'', File [72, 105])]) pdf_dir = Some Dir \<and>
   extract_text sample_env (files (doc_with [(''.pdf'', File [72, 105])])) ''doc/.pdf'' = Inr [72, 105] \<and>
   linesep sample_env = [10] \<and>
   utf8_encode (translate_newlines [10] [72, 105]) = Inr [72, 105] \<and>
   files (doc_with [(''.pdf'', File [72, 105])]) ''doc/.pdf.md'' = None \<and>
   write_denied sample_env False ''doc/.pdf.md'' = None \<and>
   links sample_env ''doc/.pdf.md'' = {} \<and>
   main sample_env [''.pdf''] (doc_with [(''.pdf'', File [72, 105])]) =
     ((doc_with [(''.pdf'', File [72, 105])])
        \<lparr>files := (files (doc_with [(''.pdf'', File [72, 105])]))(''doc/.pdf.md'' \<mapsto> File [72, 105])\<rparr>,
      None)"
proof -
  let ?w = "doc_with [(''.pdf'', File [72, 105])]"
  have h1: "files ?w pdf_dir = Some Dir" by (rule sample_dir)
  have "files ?w ''doc/.pdf'' = Some (File [72, 105])" by (simp add: doc_with_def)
  from sample_extract [OF this]
  have h2: "extract_text sample_env (files ?w) ''doc/.pdf'' = Inr [72, 105]" by simp
  have "utf8_encode [72, 105] = Inr [72, 105]" by code_simp
  then have e: "utf8_encode (translate_newlines [10] [72, 105]) = Inr [72, 105]"
    by (simp only: translate_newlines_lf)
  then have h3: "utf8_encode (translate_newlines (linesep sample_env) [72, 105]) = Inr [72, 105]"
    by (simp only: sample_linesep)
  have none: "files ?w ''doc/.pdf.md'' = None" by (simp add: doc_with_def)
  then have h4: "files ?w ''doc/.pdf.md'' \<noteq> Some Dir" by simp
  have h5: "write_denied sample_env (files ?w ''doc/.pdf.md'' \<noteq> None) ''doc/.pdf.md'' = None"
    by (rule sample_write_denied)
  have h5': "write_denied sample_env False ''doc/.pdf.md'' = None"
    by (rule sample_write_denied)
  have l: "links sample_env ''doc/.pdf.md'' = {}" by (rule sample_links)
  from dot_pdf_entry_destination [OF h1 h2 h3 h4 h5]
  have "main sample_env [''.pdf''] ?w =
      (?w\<lparr>files := put sample_env ''doc/.pdf.md'' (File [72, 105]) (files ?w)\<rparr>, None)"
    by (elim conjE)
  then have "main sample_env [''.pdf''] ?w =
      (?w\<lparr>files := (files ?w)(''doc/.pdf.md'' \<mapsto> File [72, 105])\<rparr>, None)"
    by (simp only: put_unlinked [OF l])
  with h1 h2 sample_linesep e none h5' l show ?thesis by (intro conjI)
qed

subsection \<open>C10: the source PDFs are left alone\<close>

text \<open>
  Claim C10: the converter never modifies, deletes or overwrites a source PDF: every path
  it opens for writing ends in \<^verbatim>\<open>.md\<close>, no destination equals a path ending in \<^verbatim>\<open>.pdf\<close>, and
  every file of \<^verbatim>\<open>doc\<close> whose name ends in \<^verbatim>\<open>.pdf\<close> is unchanged after the run.

  The paths are as claimed but the files are not. Where \<^verbatim>\<open>doc/a.md\<close> is a link to
  \<^verbatim>\<open>doc/a.pdf\<close> (a symbolic link, or a second name of the same file), the entry \<^verbatim>\<open>a.md\<close> is
  skipped, and converting \<^verbatim>\<open>a.pdf\<close> opens \<^verbatim>\<open>doc/a.md\<close> for writing: the source PDF is
  overwritten with the text extracted from it. The run raises nothing.
\<close>

theorem source_pdf_overwritten_through_link:
  "lists_dir (files (doc_with [(''a.md'', File [0xE9]), (''a.pdf'', File [0xE9])])) pdf_dir
     [''a.md'', ''a.pdf''] \<and>
   links (linked_env ''doc/a.md'' ''doc/a.pdf'') ''doc/a.md'' = {''doc/a.pdf''} \<and>
   endswith ''doc/a.pdf'' ''.pdf'' \<and>
   files (doc_with [(''a.md'', File [0xE9]), (''a.pdf'', File [0xE9])]) ''doc/a.pdf'' = Some (File [0xE9]) \<and>
   snd (main (linked_env ''doc/a.md'' ''doc/a.pdf'') [''a.md'', ''a.pdf'']
          (doc_with [(''a.md'', File [0xE9]), (''a.pdf'', File [0xE9])])) = None \<and>
   files (fst (main (linked_env ''doc/a.md'' ''doc/a.pdf'') [''a.md'', ''a.pdf'']
                 (doc_with [(''a.md'', File [0xE9]), (''a.pdf'', File [0xE9])]))) ''doc/a.pdf'' =
     Some (File [0xC3, 0xA9])"
proof -
  let ?L = "linked_env ''doc/a.md'' ''doc/a.pdf''"
  let ?k = "doc_with [(''a.md'', File [0xE9]), (''a.pdf'', File [0xE9])]"
  have n: "endswith ''a.pdf'' ''.pdf''" "\<not> endswith ''a.md'' ''.pdf''"
    "pdf_path_of ''a.pdf'' = ''doc/a.pdf''" "md_path_of ''a.pdf'' = ''doc/a.md''"
    by code_simp+
  have en: "entry_name ''a.pdf''" "entry_name ''a.md''" by code_simp+
  have a: "lists_dir (files ?k) pdf_dir [''a.md'', ''a.pdf'']"
    by (rule lists_dir_doc_with) (simp_all add: en)
  have b: "links ?L ''doc/a.md'' = {''doc/a.pdf''}"
    by (simp add: linked_env_def sample_env_def)
  have c: "endswith ''doc/a.pdf'' ''.pdf''" by code_simp
  have d: "files ?k ''doc/a.pdf'' = Some (File [0xE9])" by (simp add: doc_with_def)
  have e: "snd (main ?L [''a.md'', ''a.pdf''] ?k) = None"
    by (simp add: n run_eval)
  have f: "files (fst (main ?L [''a.md'', ''a.pdf''] ?k)) ''doc/a.pdf'' = Some (File [0xC3, 0xA9])"
    by (simp add: n run_eval)
  from a b c d e f show ?thesis by (intro conjI)
qed

text \<open>
  What holds on every host: the destination of every entry ends in \<^verbatim>\<open>.md\<close> and so differs
  from every path ending in \<^verbatim>\<open>.pdf\<close>; after the run, also one that raised, every path
  whose content changed ends in \<^verbatim>\<open>.md\<close> or names the same file as the destination of a
  \<^verbatim>\<open>.pdf\<close> entry; and every path ending in \<^verbatim>\<open>.pdf\<close> that no such destination is linked to
  holds what it held before.
\<close>

theorem source_pdfs_written_only_through_links:
  "endswith (md_path_of filename) ''.md'' \<and>
   (\<forall>p. endswith p ''.pdf'' \<longrightarrow> md_path_of filename \<noteq> p) \<and>
   (main E names w = (w', r) \<longrightarrow>
      (\<forall>p. files w' p \<noteq> files w p \<longrightarrow>
           endswith p ''.md'' \<or>
           (\<exists>n\<in>set names. endswith n ''.pdf'' \<and> p \<in> links E (md_path_of n))) \<and>
      (\<forall>p. endswith p ''.pdf'' \<longrightarrow>
           (\<forall>n\<in>set names. endswith n ''.pdf'' \<longrightarrow> p \<notin> links E (md_path_of n)) \<longrightarrow>
           files w' p = files w p))"
proof (intro conjI allI impI)
  show "endswith (md_path_of filename) ''.md''"
    by (rule md_path_of_endswith_md)
next
  fix p
  assume "endswith p ''.pdf''"
  then show "md_path_of filename \<noteq> p"
    using md_path_of_endswith_md [of filename] endswith_md_not_pdf by blast
next
  fix p
  assume run: "main E names w = (w', r)" and changed: "files w' p \<noteq> files w p"
  show "endswith p ''.md'' \<or> (\<exists>n\<in>set names. endswith n ''.pdf'' \<and> p \<in> links E (md_path_of n))"
  proof (rule ccontr)
    assume "\<not> (endswith p ''.md'' \<or>
      (\<exists>n\<in>set names. endswith n ''.pdf'' \<and> p \<in> links E (md_path_of n)))"
    then have "\<not> endswith p ''.md''"
      and "\<forall>n\<in>set names. endswith n ''.pdf'' \<longrightarrow> p \<notin> links E (md_path_of n)"
      by auto
    from main_keeps_non_md [OF run this] changed show False by simp
  qed
next
  fix p
  assume run: "main E names w = (w', r)" and "endswith p ''.pdf''"
    and free: "\<forall>n\<in>set names. endswith n ''.pdf'' \<longrightarrow> p \<notin> links E (md_path_of n)"
  then have "\<not> endswith p ''.md''"
    using endswith_md_not_pdf by blast
  from main_keeps_non_md [OF run this free] show "files w' p = files w p" .
qed

theorem source_pdfs_written_only_through_links_witness:
  "main sample_env [''a.pdf''] (doc_with [(''a.pdf'', File [72, 105])]) =
     ((doc_with [(''a.pdf'', File [72, 105])])
        \<lparr>files := (files (doc_with [(''a.pdf'', File [72, 105])]))(''doc/a.md'' \<mapsto> File [72, 105])\<rparr>,
      None) \<and>
   md_path_of ''a.pdf'' = ''doc/a.md'' \<and>
   endswith (md_path_of ''a.pdf'') ''.md'' \<and>
   endswith ''doc/a.pdf'' ''.pdf'' \<and>
   links sample_env (md_path_of ''a.pdf'') = {} \<and>
   files ((doc_with [(''a.pdf'', File [72, 105])])
        \<lparr>files := (files (doc_with [(''a.pdf'', File [72, 105])]))(''doc/a.md'' \<mapsto> File [72, 105])\<rparr>)
     ''doc/a.pdf'' = Some (File [72, 105])"
proof -
  let ?w = "doc_with [(''a.pdf'', File [72, 105])]"
  let ?w' = "?w\<lparr>files := (files ?w)(''doc/a.md'' \<mapsto> File [72, 105])\<rparr>"
  have a: "endswith ''a.pdf'' ''.pdf''" by code_simp
  have s: "pdf_path_of ''a.pdf'' = ''doc/a.pdf''" by code_simp
  have d: "md_path_of ''a.pdf'' = ''doc/a.md''" by code_simp
  have q: "endswith ''doc/a.pdf'' ''.pdf''" by code_simp
  have l: "links sample_env (md_path_of ''a.pdf'') = {}" by (rule sample_links)
  have src: "files ?w ''doc/a.pdf'' = Some (File [72, 105])" by (simp add: doc_with_def)
  from sample_extract [OF src]
  have h1: "extract_text sample_env (files ?w) ''doc/a.pdf'' = Inr [72, 105]" by simp
  have h2: "utf8_encode [72, 105] = Inr [72, 105]" by code_simp
  have h3: "files ?w ''doc/a.md'' \<noteq> Some Dir" by (simp add: doc_with_def)
  have "pdf_to_markdown sample_env (pdf_path_of ''a.pdf'') (md_path_of ''a.pdf'') ?w = (?w', None)"
    unfolding s d using h1 h2 h3 by (rule sample_pdf_to_markdown)
  from convert_loop_step_ok [OF a this, of "[]"]
  have run: "main sample_env [''a.pdf''] ?w = (?w', None)"
    unfolding main_eq_loop [OF sample_dir] by simp
  have free: "\<forall>n\<in>set [''a.pdf'']. endswith n ''.pdf'' \<longrightarrow>
      ''doc/a.pdf'' \<notin> links sample_env (md_path_of n)"
    by (simp add: sample_links)
  note t = source_pdfs_written_only_through_links
    [of "''a.pdf''" sample_env "[''a.pdf'']" ?w ?w' None]
  from t have e: "endswith (md_path_of ''a.pdf'') ''.md''" by (rule conjunct1)
  from t run q free have "files ?w' ''doc/a.pdf'' = files ?w ''doc/a.pdf''" by blast
  with src have k: "files ?w' ''doc/a.pdf'' = Some (File [72, 105])" by simp
  from run d e q l k show ?thesis by (intro conjI)
qed

end
